theory Spec2Isabelle
  imports Main "HOL-Library.Word"
begin

section \<open>Strings as the word-mute check uses them\<close>

text \<open>
  A JavaScript string is a sequence of UTF-16 code units. \<open>utf16\<close> writes a string whose
  characters are all below U+0100 as its code units: such a character is one code unit,
  its code point. The identifiers and keys, which the code only compares and
  concatenates, are of type \<^typ>\<open>string\<close>.

  \<^verbatim>\<open>String.prototype.toLowerCase\<close> follows the case mappings of the Unicode tables of the
  runtime, which are not part of the sources. It is a parameter of the model, the
  function \<open>toLowerCase\<close> from strings to strings.

  \<^verbatim>\<open>String.prototype.trim\<close> removes the leading and trailing code units that are white
  space or line terminators of ECMAScript: U+0009 to U+000D, U+0020, U+00A0, U+1680,
  U+2000 to U+200A, U+2028, U+2029, U+202F, U+205F, U+3000 and U+FEFF.
  \<^verbatim>\<open>String.prototype.includes\<close> looks for a contiguous run of code units.
\<close>

type_synonym code_unit = "16 word"

type_synonym js_string = "code_unit list"

definition utf16 :: "string \<Rightarrow> js_string" where
  "utf16 s = map of_char s"

definition is_js_space :: "code_unit \<Rightarrow> bool" where
  "is_js_space c \<longleftrightarrow>
     (0x0009 \<le> c \<and> c \<le> 0x000D) \<or> c = 0x0020 \<or> c = 0x00A0 \<or> c = 0x1680
     \<or> (0x2000 \<le> c \<and> c \<le> 0x200A) \<or> c = 0x2028 \<or> c = 0x2029 \<or> c = 0x202F
     \<or> c = 0x205F \<or> c = 0x3000 \<or> c = 0xFEFF"

definition trim :: "js_string \<Rightarrow> js_string" where
  "trim s = rev (dropWhile is_js_space (rev (dropWhile is_js_space s)))"

fun str_includes :: "'a list \<Rightarrow> 'a list \<Rightarrow> bool" where
  "str_includes [] k = (k = [])"
| "str_includes (c # s) k = (take (length k) (c # s) = k \<or> str_includes s k)"

fun join :: "'a list \<Rightarrow> 'a list list \<Rightarrow> 'a list" where
  "join sep [] = []"
| "join sep [x] = x"
| "join sep (x # y # ys) = x @ sep @ join sep (y # ys)"

text \<open>\<^verbatim>\<open>x ?? ""\<close> on a nullable string.\<close>

definition orEmpty :: "'a list option \<Rightarrow> 'a list" where
  "orEmpty x = (case x of None \<Rightarrow> [] | Some s \<Rightarrow> s)"

section \<open>Numbers and dates\<close>

text \<open>
  The numbers that become dates are integers or \<^verbatim>\<open>NaN\<close>, which is \<open>None\<close>. A \<^verbatim>\<open>Date\<close> holds
  a time value, an integer number of milliseconds since the epoch of magnitude at most
  8.64e15, or it is an Invalid Date, whose time value is \<^verbatim>\<open>NaN\<close>: \<^verbatim>\<open>new Date(x)\<close> is
  invalid for \<^verbatim>\<open>NaN\<close> and for a number out of that range. A comparison with \<^verbatim>\<open>NaN\<close> is
  false, whichever way it is asked.
\<close>

datatype date = InvalidDate | ValidDate int

definition inDateRange :: "int \<Rightarrow> bool" where
  "inDateRange t \<longleftrightarrow> - 8640000000000000 \<le> t \<and> t \<le> 8640000000000000"

definition newDate :: "int option \<Rightarrow> date" where
  "newDate x =
     (case x of
        None \<Rightarrow> InvalidDate
      | Some t \<Rightarrow> if inDateRange t then ValidDate t else InvalidDate)"

definition getTime :: "date \<Rightarrow> int option" where
  "getTime d = (case d of InvalidDate \<Rightarrow> None | ValidDate t \<Rightarrow> Some t)"

definition numberLess :: "int option \<Rightarrow> int option \<Rightarrow> bool" where
  "numberLess x y = (case (x, y) of (Some a, Some b) \<Rightarrow> a < b | _ \<Rightarrow> False)"

text \<open>\<^verbatim>\<open>a < b\<close> on two dates compares their time values.\<close>

definition dateLess :: "date \<Rightarrow> date \<Rightarrow> bool" where
  "dateLess a b = numberLess (getTime a) (getTime b)"

section \<open>Feed rows\<close>

datatype visibility = Public | Home | Followers | Specified | Hidden

record drive_file =
  comment :: "js_string option"

text \<open>
  The fields of \<^verbatim>\<open>Note\<close> and \<^verbatim>\<open>ScyllaNote\<close> that the filters and the word-mute check
  read. \<^verbatim>\<open>text\<close> is named \<open>noteText\<close>. The joined \<^verbatim>\<open>reply\<close> and \<^verbatim>\<open>renote\<close> entities of the
  relational store are notes again; their type is the parameter \<open>'r\<close>. A row parsed by
  \<^verbatim>\<open>parseScyllaNote\<close> has both set to \<^verbatim>\<open>null\<close>.
\<close>

record 'r note_row =
  userId :: string
  userHost :: "string option"
  noteText :: "js_string option"
  cw :: "js_string option"
  files :: "drive_file list option"
  visibility :: visibility
  visibleUserIds :: "string list"
  mentions :: "string list"
  replyUserId :: "string option"
  replyText :: "js_string option"
  replyCw :: "js_string option"
  replyFiles :: "drive_file list option"
  renoteText :: "js_string option"
  renoteCw :: "js_string option"
  renoteFiles :: "drive_file list option"
  createdAt :: date
  reply :: "'r option"
  renote :: "'r option"

section \<open>Word mutes (check-word-mute.ts)\<close>

text \<open>
  A mute pattern is \<^verbatim>\<open>string | string[]\<close>: a list of keywords, or the source text of a
  regular expression.
\<close>

datatype mute_pattern = Keywords "js_string list" | RegExpSrc js_string

text \<open>
  RE2 is an external library. It is a parameter of the model: \<open>re2 body flags txt\<close> is
  \<open>None\<close> when \<^verbatim>\<open>new RE2(body, flags).test(txt)\<close> throws, and \<open>Some b\<close> when it returns
  \<open>b\<close>.
\<close>

type_synonym regex_engine = "js_string \<Rightarrow> js_string \<Rightarrow> js_string \<Rightarrow> bool option"

text \<open>
  \<^verbatim>\<open>mutePattern.match(/^\/(.+)\/(.*)$/)\<close>: the string starts with a slash, holds no line
  terminator (\<^verbatim>\<open>.\<close> does not match U+000A, U+000D, U+2028 or U+2029), and the greedy
  first group runs to the last slash, which must leave it non-empty. The result is the
  pair of groups. The slash is the code unit \<open>0x2F\<close>, the space \<open>0x20\<close>.
\<close>

definition is_line_terminator :: "code_unit \<Rightarrow> bool" where
  "is_line_terminator c \<longleftrightarrow> c = 0x000A \<or> c = 0x000D \<or> c = 0x2028 \<or> c = 0x2029"

definition match_regexp_source :: "js_string \<Rightarrow> (js_string \<times> js_string) option" where
  "match_regexp_source s =
     (case s of
        [] \<Rightarrow> None
      | c # rest \<Rightarrow>
          if c \<noteq> 0x2F \<or> list_ex is_line_terminator s then None
          else
            let flags = rev (takeWhile (\<lambda>x. x \<noteq> 0x2F) (rev rest)) in
            if length flags = length rest then None
            else
              let body = take (length rest - length flags - 1) rest in
              if body = [] then None else Some (body, flags))"

text \<open>
  The text that \<^verbatim>\<open>checkWordMute\<close> builds from a note: \<open>concatText\<close> before \<^verbatim>\<open>trim\<close>,
  \<open>muteText\<close> after it.
\<close>

definition captions :: "drive_file list \<Rightarrow> js_string" where
  "captions fs = join [0x20] (map (\<lambda>f. orEmpty (comment f)) fs)"

definition withCaptions :: "js_string \<Rightarrow> drive_file list option \<Rightarrow> js_string" where
  "withCaptions txt fs =
     (case fs of
        None \<Rightarrow> txt
      | Some l \<Rightarrow> if length l > 0 then txt @ [0x20] @ captions l else txt)"

definition concatText :: "bool \<Rightarrow> 'r note_row \<Rightarrow> js_string" where
  "concatText scylla n =
     (let t0 = orEmpty (cw n) @ [0x20] @ orEmpty (noteText n);
          t1 = withCaptions t0 (files n)
      in if scylla
         then
           (let t3 = t1 @ orEmpty (replyCw n) @ [0x20] @ orEmpty (replyText n) @ [0x20]
                       @ orEmpty (renoteCw n) @ [0x20] @ orEmpty (renoteText n);
                t4 = withCaptions t3 (replyFiles n)
            in withCaptions t4 (renoteFiles n))
         else t1)"

definition muteText :: "bool \<Rightarrow> 'r note_row \<Rightarrow> js_string" where
  "muteText scylla n = trim (concatText scylla n)"

text \<open>
  The loop over the patterns. A pattern that is not of the form \<^verbatim>\<open>/body/flags\<close> is warned
  about and skipped; an exception of RE2 is caught and the loop goes on.
\<close>

fun mutePatternLoop ::
  "(js_string \<Rightarrow> js_string) \<Rightarrow> regex_engine \<Rightarrow> js_string \<Rightarrow> mute_pattern list \<Rightarrow> bool" where
  "mutePatternLoop toLowerCase re2 txt [] = False"
| "mutePatternLoop toLowerCase re2 txt (Keywords mutePattern # rest) =
     (let keywords = filter (\<lambda>keyword. keyword \<noteq> []) mutePattern in
      if length keywords > 0 \<and>
         list_all (\<lambda>keyword. str_includes (toLowerCase txt) (toLowerCase keyword)) keywords
      then True
      else mutePatternLoop toLowerCase re2 txt rest)"
| "mutePatternLoop toLowerCase re2 txt (RegExpSrc mutePattern # rest) =
     (case match_regexp_source mutePattern of
        None \<Rightarrow> mutePatternLoop toLowerCase re2 txt rest
      | Some (body, flags) \<Rightarrow>
          (case re2 body flags txt of
             Some True \<Rightarrow> True
           | _ \<Rightarrow> mutePatternLoop toLowerCase re2 txt rest))"

text \<open>
  \<^verbatim>\<open>checkWordMute(note, mutedWords)\<close>. The flag \<open>scylla\<close> is \<^verbatim>\<open>scyllaClient\<close> being
  non-null; \<open>None\<close> is a \<^verbatim>\<open>null\<close> note.
\<close>

definition checkWordMute ::
  "(js_string \<Rightarrow> js_string) \<Rightarrow> regex_engine \<Rightarrow> bool \<Rightarrow> 'r note_row option
     \<Rightarrow> mute_pattern list \<Rightarrow> bool" where
  "checkWordMute toLowerCase re2 scylla note mutedWords =
     (case note of
        None \<Rightarrow> False
      | Some n \<Rightarrow>
          let txt = muteText scylla n in
          if txt = [] then False else mutePatternLoop toLowerCase re2 txt mutedWords)"

text \<open>
  \<^verbatim>\<open>getWordHardMute\<close> is declared \<^verbatim>\<open>async\<close>: a call returns a promise, here fulfilled with
  the value of the body. The argument \<open>meId\<close> is typed \<^verbatim>\<open>string | null | undefined\<close>, and
  \<^verbatim>\<open>filterMutedNote\<close> passes the viewer object \<^verbatim>\<open>{ id }\<close> for it, so the model keeps the
  three shapes of the value apart. \<^verbatim>\<open>note.userId === meId\<close> holds for an equal string only.
\<close>

datatype 'a promise = Fulfilled 'a

datatype user = User (user_id: string)

datatype js_me = MeString string | MeObject user | MeNull

definition strictEqualsMe :: "string \<Rightarrow> js_me \<Rightarrow> bool" where
  "strictEqualsMe s meId \<longleftrightarrow> meId = MeString s"

definition getWordHardMute ::
  "(js_string \<Rightarrow> js_string) \<Rightarrow> regex_engine \<Rightarrow> bool \<Rightarrow> ('s note_row) note_row \<Rightarrow> js_me
     \<Rightarrow> mute_pattern list option \<Rightarrow> bool promise" where
  "getWordHardMute toLowerCase re2 scylla note meId mutedWords =
     Fulfilled
       (case mutedWords of
          None \<Rightarrow> False
        | Some ws \<Rightarrow>
            if strictEqualsMe (userId note) meId then False
            else if length ws > 0
            then
              (let ng = checkWordMute toLowerCase re2 scylla (Some note) ws in
               if \<not> scylla
               then ng \<or> checkWordMute toLowerCase re2 scylla (reply note) ws
                       \<or> checkWordMute toLowerCase re2 scylla (renote note) ws
               else ng)
            else False)"

text \<open>The value a caller that awaits the promise gets.\<close>

definition await :: "'a promise \<Rightarrow> 'a" where
  "await p = (case p of Fulfilled v \<Rightarrow> v)"

text \<open>
  JavaScript's \<^verbatim>\<open>ToBoolean\<close> on a promise: a promise is an object, and every object is
  truthy, whatever it is fulfilled with.
\<close>

definition truthyPromise :: "'a promise \<Rightarrow> bool" where
  "truthyPromise p = (case p of Fulfilled v \<Rightarrow> True)"

section \<open>The filter steps of the scan (scylla.ts)\<close>

text \<open>
  \<^verbatim>\<open>filterMutedNote(notes, user, mutedWords)\<close>: the predicate of \<^verbatim>\<open>notes.filter\<close> is
  \<^verbatim>\<open>!getWordHardMute(note, user, mutedWords)\<close>, the negation of the promise itself; the
  promise is not awaited.
\<close>

definition filterMutedNote ::
  "(js_string \<Rightarrow> js_string) \<Rightarrow> regex_engine \<Rightarrow> bool \<Rightarrow> ('s note_row) note_row list \<Rightarrow> user
     \<Rightarrow> mute_pattern list \<Rightarrow> ('s note_row) note_row list" where
  "filterMutedNote toLowerCase re2 scylla notes usr mutedWords =
     (if length mutedWords > 0
      then filter (\<lambda>note. \<not> truthyPromise
                     (getWordHardMute toLowerCase re2 scylla note (MeObject usr) (Some mutedWords))) notes
      else notes)"

text \<open>\<^verbatim>\<open>filterVisibility(notes, user, followingIds)\<close>; \<open>None\<close> is the anonymous viewer.\<close>

definition filterVisibility ::
  "'r note_row list \<Rightarrow> user option \<Rightarrow> string list \<Rightarrow> 'r note_row list" where
  "filterVisibility notes usr followingIds =
     (case usr of
        None \<Rightarrow> filter (\<lambda>note. visibility note \<in> set [Public, Home]) notes
      | Some u \<Rightarrow>
          filter (\<lambda>note.
              visibility note \<in> set [Public, Home] \<or>
              userId note = user_id u \<or>
              user_id u \<in> set (visibleUserIds note) \<or>
              user_id u \<in> set (mentions note) \<or>
              (visibility note = Followers \<and>
                 (userId note \<in> set followingIds \<or> replyUserId note = Some (user_id u))))
            notes)"

section \<open>The single-note visibility check (the note repository)\<close>

text \<open>
  \<^verbatim>\<open>isVisibleForMe(note, meId)\<close> reads three things of the database in its last branch:
  whether the viewer is a local user (\<^verbatim>\<open>findOneByOrFail\<close> rejects for an unknown id, which
  is \<open>None\<close> here), the viewer's cached followings, and the followings table. The
  method \<^verbatim>\<open>cache.has\<close> that it calls on the cached followings is not among the methods of
  \<^verbatim>\<open>SetCache\<close> in the sources; its answer is the parameter \<open>localFollowingHas\<close>.
\<close>

record follow_db =
  userIsLocal :: "string \<Rightarrow> bool option"
  localFollowingHas :: "string \<Rightarrow> string \<Rightarrow> bool"
  followingExists :: "string \<Rightarrow> string \<Rightarrow> bool"

definition isVisibleForMe ::
  "follow_db \<Rightarrow> ('s note_row) note_row \<Rightarrow> string option \<Rightarrow> bool option" where
  "isVisibleForMe db note meId =
     (if visibility note = Specified
      then
        (case meId of
           None \<Rightarrow> Some False
         | Some me \<Rightarrow>
             if me = userId note then Some True
             else Some (list_ex (\<lambda>i. me = i) (visibleUserIds note)))
      else if visibility note = Followers
      then
        (case meId of
           None \<Rightarrow> Some False
         | Some me \<Rightarrow>
             if me = userId note then Some True
             else if (case reply note of None \<Rightarrow> False | Some r \<Rightarrow> me = userId r) then Some True
             else if list_ex (\<lambda>i. me = i) (mentions note) then Some True
             else
               (case userIsLocal db me of
                  None \<Rightarrow> None
                | Some True \<Rightarrow> Some (localFollowingHas db me (userId note))
                | Some False \<Rightarrow>
                    Some (followingExists db me (userId note)
                          \<or> (userHost note \<noteq> None \<and> userHost note \<noteq> Some []))))
      else Some True)"

section \<open>Stand-ins for the runtime in the scenarios\<close>

text \<open>
  The theorems about the word-mute check hold for every lower-casing function and every
  engine. The concrete scenarios need one of each to run, and their texts are ASCII.
  \<open>asciiLowerCase\<close> is what \<^verbatim>\<open>toLowerCase\<close> does to a string of ASCII code units: the
  letters A to Z become a to z. \<open>sample_re2\<close> reads a body made of literal ASCII
  characters and \<^verbatim>\<open>.\<close>, each optionally followed by \<^verbatim>\<open>*\<close>, with no flag or the flag \<^verbatim>\<open>i\<close>,
  and searches the text for a match as \<^verbatim>\<open>test\<close> does. On every other body or flag it
  answers \<open>None\<close>.
\<close>

definition asciiLower :: "code_unit \<Rightarrow> code_unit" where
  "asciiLower c = (if 0x41 \<le> c \<and> c \<le> 0x5A then c + 0x20 else c)"

definition asciiLowerCase :: "js_string \<Rightarrow> js_string" where
  "asciiLowerCase s = map asciiLower s"

datatype re_atom = AnyChar | Lit code_unit

fun parse_atoms :: "js_string \<Rightarrow> (re_atom \<times> bool) list option" where
  "parse_atoms [] = Some []"
| "parse_atoms (c # cs) =
     (if c \<in> set (utf16 ''*+?|()[]{}^$'') \<or> c = 0x5C \<or> 0x7F < c then None
      else
        (case cs of
           [] \<Rightarrow> Some [(if c = 0x2E then AnyChar else Lit c, False)]
         | d # ds \<Rightarrow>
             if d = 0x2A
             then map_option (Cons (if c = 0x2E then AnyChar else Lit c, True)) (parse_atoms ds)
             else map_option (Cons (if c = 0x2E then AnyChar else Lit c, False)) (parse_atoms cs)))"

fun atom_accepts :: "re_atom \<Rightarrow> code_unit \<Rightarrow> bool" where
  "atom_accepts AnyChar c = (c \<noteq> 0x0A)"
| "atom_accepts (Lit a) c = (a = c)"

fun match_here :: "(re_atom \<times> bool) list \<Rightarrow> js_string \<Rightarrow> bool" where
  "match_here [] s = True"
| "match_here ((a, False) # items) [] = False"
| "match_here ((a, False) # items) (c # cs) = (atom_accepts a c \<and> match_here items cs)"
| "match_here ((a, True) # items) [] = match_here items []"
| "match_here ((a, True) # items) (c # cs) =
     (match_here items (c # cs) \<or> (atom_accepts a c \<and> match_here ((a, True) # items) cs))"

fun search_match :: "(re_atom \<times> bool) list \<Rightarrow> js_string \<Rightarrow> bool" where
  "search_match items [] = match_here items []"
| "search_match items (c # cs) = (match_here items (c # cs) \<or> search_match items cs)"

fun lower_atom :: "re_atom \<times> bool \<Rightarrow> re_atom \<times> bool" where
  "lower_atom (AnyChar, st) = (AnyChar, st)"
| "lower_atom (Lit c, st) = (Lit (asciiLower c), st)"

definition sample_re2 :: regex_engine where
  "sample_re2 body flags txt =
     (if flags \<noteq> [] \<and> flags \<noteq> utf16 ''i'' then None
      else
        (case parse_atoms body of
           None \<Rightarrow> None
         | Some items \<Rightarrow>
             Some (if flags = utf16 ''i''
                   then search_match (map lower_atom items) (asciiLowerCase txt)
                   else search_match items txt)))"

text \<open>A row with a text and nothing else, and a row with no text at all.\<close>

definition textOnlyNote :: "js_string option \<Rightarrow> (unit note_row) note_row" where
  "textOnlyNote t =
     \<lparr> userId = ''alice'', userHost = None, noteText = t, cw = None, files = Some [],
       visibility = Public, visibleUserIds = [], mentions = [], replyUserId = None,
       replyText = None, replyCw = None, replyFiles = Some [],
       renoteText = None, renoteCw = None, renoteFiles = Some [],
       createdAt = ValidDate 0, reply = None, renote = None \<rparr>"

definition mentionedDirectNote :: "(unit note_row) note_row" where
  "mentionedDirectNote =
     (textOnlyNote (Some (utf16 ''hi @bob'')))
       \<lparr> visibility := Specified, visibleUserIds := [''carol''], mentions := [''bob'', ''carol''] \<rparr>"

section \<open>Word-mute matching as the specification words it\<close>

text \<open>
  A literal pattern matches when it has a non-empty keyword and every non-empty keyword is
  a case-insensitive substring of the text: the keyword in lower case occurs in the text
  in lower case. A regular-expression pattern matches when it is of the form
  \<^verbatim>\<open>/body/flags\<close> and the engine, built from the body and the flags without an exception,
  finds a match in the text.
\<close>

definition literalMatches :: "(js_string \<Rightarrow> js_string) \<Rightarrow> js_string \<Rightarrow> js_string list \<Rightarrow> bool" where
  "literalMatches toLowerCase txt ks \<longleftrightarrow>
     (\<exists>k \<in> set ks. k \<noteq> []) \<and>
     (\<forall>k \<in> set ks. k \<noteq> [] \<longrightarrow> str_includes (toLowerCase txt) (toLowerCase k))"

definition regexMatches :: "regex_engine \<Rightarrow> js_string \<Rightarrow> js_string \<Rightarrow> bool" where
  "regexMatches re2 txt src \<longleftrightarrow>
     (case match_regexp_source src of
        None \<Rightarrow> False
      | Some (body, flags) \<Rightarrow> re2 body flags txt = Some True)"

definition patternMatches ::
  "(js_string \<Rightarrow> js_string) \<Rightarrow> regex_engine \<Rightarrow> js_string \<Rightarrow> mute_pattern \<Rightarrow> bool" where
  "patternMatches toLowerCase re2 txt p =
     (case p of
        Keywords ks \<Rightarrow> literalMatches toLowerCase txt ks
      | RegExpSrc src \<Rightarrow> regexMatches re2 txt src)"

section \<open>The Redis store behind the caches\<close>

text \<open>
  One keyspace: a key holds a string value (for \<^verbatim>\<open>Cache\<close>, the msgpack buffer of a value,
  modelled by the value itself, since \<^verbatim>\<open>decode\<close> inverts \<^verbatim>\<open>encode\<close>) or a set of
  strings, with an optional absolute expiry in seconds. A key whose expiry has passed is
  absent for every command. The members of a set are kept as a duplicate-free list.
\<close>

datatype 'v redis_value = RString 'v | RSet "string list"

datatype redis_error = WrongType

record 'v redis =
  clock :: nat
  entries :: "(string \<times> 'v redis_value \<times> nat option) list"

definition expired :: "nat \<Rightarrow> nat option \<Rightarrow> bool" where
  "expired now e = (case e of None \<Rightarrow> False | Some t \<Rightarrow> t \<le> now)"

definition lookup :: "'v redis \<Rightarrow> string \<Rightarrow> ('v redis_value \<times> nat option) option" where
  "lookup r k =
     (case map_of (entries r) k of
        None \<Rightarrow> None
      | Some (v, e) \<Rightarrow> if expired (clock r) e then None else Some (v, e))"

definition remove :: "string \<Rightarrow> 'v redis \<Rightarrow> 'v redis" where
  "remove k r = r \<lparr> entries := filter (\<lambda>x. fst x \<noteq> k) (entries r) \<rparr>"

definition put :: "string \<Rightarrow> 'v redis_value \<Rightarrow> nat option \<Rightarrow> 'v redis \<Rightarrow> 'v redis" where
  "put k v e r = r \<lparr> entries := (k, v, e) # filter (\<lambda>x. fst x \<noteq> k) (entries r) \<rparr>"

text \<open>
  The glob patterns of \<^verbatim>\<open>KEYS\<close>: \<^verbatim>\<open>*\<close> matches any run of characters, \<^verbatim>\<open>?\<close> one character,
  a backslash quotes the next character. Bracket classes are not modelled; no cache name
  of this code base holds a bracket.
\<close>

fun glob_match :: "string \<Rightarrow> string \<Rightarrow> bool" where
  "glob_match [] s = (s = [])"
| "glob_match (p # ps) [] = (p = CHR ''*'' \<and> glob_match ps [])"
| "glob_match (p # ps) (c # cs) =
     (if p = CHR ''*'' then glob_match ps (c # cs) \<or> glob_match (p # ps) cs
      else if p = CHR ''?'' then glob_match ps cs
      else if p = CHR 0x5C \<and> ps \<noteq> [] then hd ps = c \<and> glob_match (tl ps) cs
      else p = c \<and> glob_match ps cs)"

text \<open>The commands the caches issue.\<close>

definition redis_set :: "string \<Rightarrow> 'v \<Rightarrow> nat \<Rightarrow> 'v redis \<Rightarrow> 'v redis" where
  "redis_set k v ex r = put k (RString v) (Some (clock r + ex)) r"

definition redis_getBuffer :: "string \<Rightarrow> 'v redis \<Rightarrow> redis_error + 'v option" where
  "redis_getBuffer k r =
     (case lookup r k of
        None \<Rightarrow> Inr None
      | Some (RString v, e) \<Rightarrow> Inr (Some v)
      | Some (RSet ms, e) \<Rightarrow> Inl WrongType)"

definition redis_expire :: "string \<Rightarrow> nat \<Rightarrow> 'v redis \<Rightarrow> 'v redis" where
  "redis_expire k ex r =
     (case lookup r k of
        None \<Rightarrow> r
      | Some (v, e) \<Rightarrow> put k v (Some (clock r + ex)) r)"

definition redis_keys :: "string \<Rightarrow> 'v redis \<Rightarrow> string list" where
  "redis_keys pat r =
     filter (\<lambda>k. lookup r k \<noteq> None \<and> glob_match pat k) (remdups (map fst (entries r)))"

definition redis_mgetBuffer :: "string list \<Rightarrow> 'v redis \<Rightarrow> 'v option list" where
  "redis_mgetBuffer ks r =
     map (\<lambda>k. case lookup r k of Some (RString v, e) \<Rightarrow> Some v | _ \<Rightarrow> None) ks"

definition redis_del :: "string list \<Rightarrow> 'v redis \<Rightarrow> 'v redis" where
  "redis_del ks r = fold remove ks r"

definition redis_exists :: "string \<Rightarrow> 'v redis \<Rightarrow> nat" where
  "redis_exists k r = (if lookup r k = None then 0 else 1)"

definition redis_scard :: "string \<Rightarrow> 'v redis \<Rightarrow> redis_error + nat" where
  "redis_scard k r =
     (case lookup r k of
        None \<Rightarrow> Inr 0
      | Some (RSet ms, e) \<Rightarrow> Inr (length ms)
      | Some (RString v, e) \<Rightarrow> Inl WrongType)"

definition redis_sadd :: "string \<Rightarrow> string list \<Rightarrow> 'v redis \<Rightarrow> redis_error + 'v redis" where
  "redis_sadd k ms r =
     (case lookup r k of
        None \<Rightarrow> Inr (put k (RSet (remdups ms)) None r)
      | Some (RSet old, e) \<Rightarrow>
          Inr (put k (RSet (old @ filter (\<lambda>m. m \<notin> set old) (remdups ms))) e r)
      | Some (RString v, e) \<Rightarrow> Inl WrongType)"

definition redis_smembers :: "string \<Rightarrow> 'v redis \<Rightarrow> redis_error + string list" where
  "redis_smembers k r =
     (case lookup r k of
        None \<Rightarrow> Inr []
      | Some (RSet ms, e) \<Rightarrow> Inr ms
      | Some (RString v, e) \<Rightarrow> Inl WrongType)"

section \<open>The keyed cache (class Cache of cache.ts)\<close>

record cache =
  ttl :: nat
  prefix :: string

definition Cache :: "string \<Rightarrow> nat \<Rightarrow> cache" where
  "Cache name ttlSeconds = \<lparr> ttl = ttlSeconds, prefix = ''cache:'' @ name \<rparr>"

text \<open>\<^verbatim>\<open>key ? `${this.prefix}:${key}` : this.prefix\<close>: \<^verbatim>\<open>null\<close> and the empty string are falsy.\<close>

definition prefixedKey :: "cache \<Rightarrow> string option \<Rightarrow> string" where
  "prefixedKey c k =
     (case k of
        None \<Rightarrow> prefix c
      | Some s \<Rightarrow> if s = [] then prefix c else prefix c @ '':'' @ s)"

definition cache_set :: "cache \<Rightarrow> string option \<Rightarrow> 'v \<Rightarrow> 'v redis \<Rightarrow> 'v redis" where
  "cache_set c k v r = redis_set (prefixedKey c k) v (ttl c) r"

definition cache_get ::
  "cache \<Rightarrow> string option \<Rightarrow> bool \<Rightarrow> 'v redis \<Rightarrow> redis_error + ('v option \<times> 'v redis)" where
  "cache_get c k renew r =
     (case redis_getBuffer (prefixedKey c k) r of
        Inl e \<Rightarrow> Inl e
      | Inr None \<Rightarrow> Inr (None, r)
      | Inr (Some cached) \<Rightarrow>
          Inr (Some cached, if renew then redis_expire (prefixedKey c k) (ttl c) r else r))"

text \<open>
  \<^verbatim>\<open>getAll(renew)\<close>: the keys that match \<^verbatim>\<open>`${this.prefix}*`\<close>, their values by one \<^verbatim>\<open>MGET\<close>
  (which answers \<^verbatim>\<open>null\<close> for a key that holds no string), the map from each such key to
  its value, and the renewal of the keys of the map in one transaction. The result is the
  map, keyed by the full Redis keys, and the store.
\<close>

definition getAll ::
  "cache \<Rightarrow> bool \<Rightarrow> 'v redis \<Rightarrow> (string \<rightharpoonup> 'v) \<times> 'v redis" where
  "getAll c renew r =
     (let keys = redis_keys (prefix c @ ''*'') r in
      if length keys = 0 then (Map.empty, r)
      else
        (let vals = redis_mgetBuffer keys r;
             m = fold (\<lambda>(k, val) m. case val of None \<Rightarrow> m | Some v \<Rightarrow> m(k \<mapsto> v))
                   (zip keys vals) Map.empty
         in (m, if renew
                then fold (\<lambda>k. redis_expire k (ttl c)) (filter (\<lambda>k. m k \<noteq> None) keys) r
                else r)))"

section \<open>The membership cache (class SetCache of cache.ts)\<close>

text \<open>
  The producer \<^verbatim>\<open>fetcher\<close> reads the member list from the database; its answer is a field
  of the model.
\<close>

record set_cache =
  key :: string
  fetcher :: "string list"

definition SetCache :: "string \<Rightarrow> string \<Rightarrow> string list \<Rightarrow> set_cache" where
  "SetCache name uid produced = \<lparr> key = ''setcache:'' @ name @ '':'' @ uid, fetcher = produced \<rparr>"

definition hasFollowing :: "set_cache \<Rightarrow> string redis \<Rightarrow> redis_error + bool" where
  "hasFollowing c r =
     (case redis_scard (key c) r of Inl e \<Rightarrow> Inl e | Inr n \<Rightarrow> Inr (n \<noteq> 0))"

definition follow :: "set_cache \<Rightarrow> string list \<Rightarrow> string redis \<Rightarrow> redis_error + string redis" where
  "follow c targetIds r =
     (if length targetIds > 0 then redis_sadd (key c) targetIds r else Inr r)"

definition members :: "set_cache \<Rightarrow> string redis \<Rightarrow> redis_error + string list" where
  "members c r = redis_smembers (key c) r"

text \<open>
  \<^verbatim>\<open>fetch()\<close>: "Sync from DB if nothing is cached yet or cache is expired". The marker is
  the key \<^verbatim>\<open>`${this.key}:fetched`\<close>, set to "yes" for 30 minutes.
\<close>

definition fetch :: "set_cache \<Rightarrow> string redis \<Rightarrow> redis_error + string redis" where
  "fetch c r =
     (let ttlKey = key c @ '':fetched'' in
      case hasFollowing c r of
        Inl e \<Rightarrow> Inl e
      | Inr has \<Rightarrow>
          if \<not> has \<or> redis_exists ttlKey r = 0
          then
            (case follow c (fetcher c) (redis_del [key c] r) of
               Inl e \<Rightarrow> Inl e
             | Inr r2 \<Rightarrow> Inr (redis_set ttlKey ''yes'' (60 * 30) r2))
          else Inr r)"

text \<open>
  \<^verbatim>\<open>LocalFollowingsCache.init(userId)\<close> and \<^verbatim>\<open>ChannelFollowingsCache.init(userId)\<close>: build
  the handle, then \<^verbatim>\<open>fetch\<close>. The two database queries are parameters.
\<close>

definition LocalFollowingsCache_init ::
  "(string \<Rightarrow> string list) \<Rightarrow> string \<Rightarrow> string redis \<Rightarrow> redis_error + (set_cache \<times> string redis)" where
  "LocalFollowingsCache_init localFollowees uid r =
     (let c = SetCache ''follow'' uid (localFollowees uid) in
      case fetch c r of Inl e \<Rightarrow> Inl e | Inr r' \<Rightarrow> Inr (c, r'))"

definition ChannelFollowingsCache_init ::
  "(string \<Rightarrow> string list) \<Rightarrow> string \<Rightarrow> string redis \<Rightarrow> redis_error + (set_cache \<times> string redis)" where
  "ChannelFollowingsCache_init followedChannels uid r =
     (let c = SetCache ''channel'' uid (followedChannels uid) in
      case fetch c r of Inl e \<Rightarrow> Inl e | Inr r' \<Rightarrow> Inr (c, r'))"

text \<open>Two stores for the scenarios: an empty one, and one with a warm set and no marker.\<close>

definition emptyRedis :: "'v redis" where
  "emptyRedis = \<lparr> clock = 0, entries = [] \<rparr>"

definition warmUnmarkedRedis :: "string redis" where
  "warmUnmarkedRedis = \<lparr> clock = 5000, entries = [(''setcache:follow:bob'', RSet [''alice''], None)] \<rparr>"

definition bobFollowings :: set_cache where
  "bobFollowings = SetCache ''follow'' ''bob'' [''carol'']"

definition syncedRedis :: "string redis" where
  "syncedRedis =
     \<lparr> clock = 5000,
       entries = [(''setcache:follow:bob:fetched'', RString ''yes'', Some 6800),
                  (''setcache:follow:bob'', RSet [''carol''], None)] \<rparr>"


section \<open>Loops\<close>

text \<open>
  A \<^verbatim>\<open>while (cond) { body }\<close> loop over a state. One run of the body throws, leaves
  the loop (\<^verbatim>\<open>break\<close>), or ends with the state of the next round; the body itself may fail
  to return, which is \<open>None\<close>. A loop that never stops has the value \<open>None\<close>.
\<close>

datatype ('e, 's) step = Throw 'e | Break 's | Continue 's

partial_function (option) whileLoop ::
  "('s \<Rightarrow> bool) \<Rightarrow> ('s \<Rightarrow> ('e, 's) step option) \<Rightarrow> 's \<Rightarrow> ('e + 's) option" where
  "whileLoop cond body s =
     (if cond s
      then
        (case body s of
           None \<Rightarrow> None
         | Some (Throw e) \<Rightarrow> Some (Inl e)
         | Some (Break s') \<Rightarrow> Some (Inr s')
         | Some (Continue s') \<Rightarrow> whileLoop cond body s')
      else Some (Inr s))"

declare whileLoop.simps [code]

text \<open>
  The states a loop goes through in at most \<open>n\<close> rounds, first to last: the state at the
  head of each round and, after a \<^verbatim>\<open>break\<close>, the state the loop is left in. A run that
  never stops has such a list for every \<open>n\<close>.
\<close>

fun loopStates :: "nat \<Rightarrow> ('s \<Rightarrow> bool) \<Rightarrow> ('s \<Rightarrow> ('e, 's) step option) \<Rightarrow> 's \<Rightarrow> 's list" where
  "loopStates 0 cond body s = [s]"
| "loopStates (Suc n) cond body s =
     s # (if cond s
          then (case body s of
                  Some (Continue s') \<Rightarrow> loopStates n cond body s'
                | Some (Break s') \<Rightarrow> [s']
                | _ \<Rightarrow> [])
          else [])"


section \<open>Pagination over the partitioned store (scylla.ts)\<close>

datatype feedType =
  HomeFeed | LocalFeed | RecommendedFeed | GlobalFeed | RenotesFeed | UserFeed | ChannelFeed
  | NotificationFeed | ListFeed | ReactionFeed | AntennaFeed

text \<open>
  The prepared statements of \<^verbatim>\<open>cql.ts\<close> are not part of the sources: the table from their
  names to their text is the parameter \<open>prepared\<close>. So is \<^verbatim>\<open>getTimestamp\<close> of \<^verbatim>\<open>gen-id.ts\<close>,
  which decodes the creation time of an id, a number that is an integer or \<^verbatim>\<open>NaN\<close>, and the
  clock, the parameter \<open>now\<close>: \<^verbatim>\<open>new Date()\<close> is the date of the clock.
\<close>

datatype template =
  HomeTimelineByUserAndDate | LocalTimelineByDate | GlobalTimelineByDate | NoteByRenoteId
  | NoteByUserId | NoteByChannelId | NotificationByTargetId | ReactionByUserId | NoteByDate

record pagination =
  limit :: int
  untilId :: "string option"
  untilDate :: "int option"
  sinceId :: "string option"
  sinceDate :: "int option"
  noteId :: "string option"
  channelId :: "string option"
  userIds :: "string list option"

text \<open>
  JavaScript's truthiness of an optional string and of an optional number: \<^verbatim>\<open>undefined\<close>,
  the empty string and \<^verbatim>\<open>0\<close> are falsy. \<open>givenString\<close> and \<open>givenNumber\<close> keep a truthy
  value and drop a falsy one.
\<close>

definition givenString :: "string option \<Rightarrow> string option" where
  "givenString x = (case x of None \<Rightarrow> None | Some s \<Rightarrow> if s = [] then None else Some s)"

definition givenNumber :: "int option \<Rightarrow> int option" where
  "givenNumber x = (case x of None \<Rightarrow> None | Some n \<Rightarrow> if n = 0 then None else Some n)"

definition templateOf :: "feedType \<Rightarrow> template" where
  "templateOf kind =
     (case kind of
        HomeFeed \<Rightarrow> HomeTimelineByUserAndDate
      | LocalFeed \<Rightarrow> LocalTimelineByDate
      | RecommendedFeed \<Rightarrow> GlobalTimelineByDate
      | GlobalFeed \<Rightarrow> GlobalTimelineByDate
      | RenotesFeed \<Rightarrow> NoteByRenoteId
      | UserFeed \<Rightarrow> NoteByUserId
      | ListFeed \<Rightarrow> NoteByUserId
      | ChannelFeed \<Rightarrow> NoteByChannelId
      | NotificationFeed \<Rightarrow> NotificationByTargetId
      | ReactionFeed \<Rightarrow> ReactionByUserId
      | AntennaFeed \<Rightarrow> NoteByDate)"

text \<open>
  \<^verbatim>\<open>preparePaginationQuery(kind, ps)\<close>: the query text, the until date, the since date.
  The request numbers \<^verbatim>\<open>ps.untilDate\<close> and \<^verbatim>\<open>ps.sinceDate\<close> are integers. A since date
  that is an Invalid Date is a \<^verbatim>\<open>Date\<close> object all the same: it is not \<^verbatim>\<open>null\<close>, and it is
  truthy.
\<close>

definition preparePaginationQuery ::
  "(template \<Rightarrow> string) \<Rightarrow> (string \<Rightarrow> int option) \<Rightarrow> int \<Rightarrow> feedType \<Rightarrow> pagination
     \<Rightarrow> string \<times> date \<times> date option" where
  "preparePaginationQuery prepared getTimestamp now kind ps =
     (let until0 = newDate (Some now);
          until1 = (case givenString (untilId ps) of
                      None \<Rightarrow> until0
                    | Some i \<Rightarrow> newDate (getTimestamp i));
          until2 = (case givenNumber (untilDate ps) of
                      None \<Rightarrow> until1
                    | Some d \<Rightarrow> if numberLess (Some d) (getTime until1) then newDate (Some d)
                                else until1);
          since0 = None;
          since1 = (case givenString (sinceId ps) of
                      None \<Rightarrow> since0
                    | Some i \<Rightarrow> Some (newDate (getTimestamp i)));
          since2 = (case givenNumber (sinceDate ps) of
                      None \<Rightarrow> since1
                    | Some d \<Rightarrow>
                        (case since1 of
                           None \<Rightarrow> Some (newDate (Some d))
                         | Some s \<Rightarrow> if numberLess (getTime s) (Some d) then Some (newDate (Some d))
                                     else since1));
          queryParts = [prepared (templateOf kind), ''AND \"createdAt\" < ?'']
                       @ (if since2 \<noteq> None then [''AND \"createdAt\" > ?''] else [])
                       @ [''LIMIT ?'']
      in (join '' '' queryParts, until2, since2))"

text \<open>
  The parameters of a statement are strings, dates and numbers. The driver's \<^verbatim>\<open>execute\<close>
  is a function from the query text and the parameters to the rows, \<open>None\<close> when the
  request is rejected. A row is modelled after parsing (\<^verbatim>\<open>parseScyllaNote\<close>,
  \<^verbatim>\<open>parseScyllaNotification\<close> and \<^verbatim>\<open>parseScyllaReaction\<close> rename columns): the three row
  shapes share the type \<open>'r\<close>, and \<open>createdAtOf\<close> reads the \<^verbatim>\<open>createdAt\<close> date of a row.
\<close>

datatype param = PString string | PDate date | PNumber int

datatype exec_error = InvalidFeedParameters feedType | QueryError | TypeError | RangeError

record 'r feed_filter =
  noteFilter :: "('r list \<Rightarrow> 'r list) option"
  reactionFilter :: "('r list \<Rightarrow> 'r list) option"
  notificationFilter :: "('r list \<Rightarrow> 'r list) option"

record scylla_config =
  configSparseTimelineDays :: "int option"
  configQueryLimit :: "int option"

text \<open>
  The state of the scan loop: the rows found, the partitions scanned, the local
  \<^verbatim>\<open>untilDate\<close> (here \<open>cursor\<close>), the caller's array \<^verbatim>\<open>ps.userIds\<close>, which the loop pops
  from (here \<open>remainingUserIds\<close>), and the parameter lists passed to \<^verbatim>\<open>execute\<close> so far,
  oldest first (\<open>issued\<close>).
\<close>

record 'r scan =
  found :: "'r list"
  scannedPartitions :: int
  cursor :: date
  remainingUserIds :: "string list option"
  issued :: "param list list"

definition initialScan :: "date \<Rightarrow> pagination \<Rightarrow> 'r scan" where
  "initialScan until ps =
     \<lparr> found = [], scannedPartitions = 0, cursor = until, remainingUserIds = userIds ps,
       issued = [] \<rparr>"

text \<open>
  \<^verbatim>\<open>Date.prototype.setHours\<close> works in the local time of the server. ECMAScript goes from
  a time value \<open>t\<close> to local time by adding the offset of the zone at \<open>t\<close>, and back from
  a local time by subtracting the offset of the zone at that local time. Both offsets
  come from the time-zone data of the runtime: they are the parameter \<open>zone\<close>.
  \<^verbatim>\<open>d.setHours(23, 59, 59, 990)\<close> keeps the local day of \<open>d\<close> and sets the time within the
  day to 86399990 ms; the result is clipped to the range of a date, and an Invalid Date
  stays invalid.
\<close>

record time_zone =
  offsetAtUtc :: "int \<Rightarrow> int"
  offsetAtLocal :: "int \<Rightarrow> int"

definition setHoursEndOfDay :: "time_zone \<Rightarrow> date \<Rightarrow> date" where
  "setHoursEndOfDay zone d =
     (case getTime d of
        None \<Rightarrow> InvalidDate
      | Some t \<Rightarrow>
          (let localTime = t + offsetAtUtc zone t;
               endOfDay = (localTime div 86400000) * 86400000 + 86399990
           in newDate (Some (endOfDay - offsetAtLocal zone endOfDay))))"

text \<open>
  \<^verbatim>\<open>new Date(untilDate.getTime() - 86400000)\<close> followed by \<^verbatim>\<open>setHours(23, 59, 59, 990)\<close>.
\<close>

definition endOfPreviousDay :: "time_zone \<Rightarrow> date \<Rightarrow> date" where
  "endOfPreviousDay zone d =
     setHoursEndOfDay zone (newDate (map_option (\<lambda>t. t - 86400000) (getTime d)))"

text \<open>The checks before the loop: a feed kind without its scoping id throws.\<close>

definition checkFeedParameters :: "feedType \<Rightarrow> pagination \<Rightarrow> string option \<Rightarrow> exec_error option" where
  "checkFeedParameters kind ps forUserId =
     (if kind \<in> set [HomeFeed, UserFeed, NotificationFeed, ReactionFeed]
      then (if givenString forUserId = None then Some (InvalidFeedParameters kind) else None)
      else if kind = RenotesFeed
      then (if givenString (noteId ps) = None then Some (InvalidFeedParameters kind) else None)
      else if kind = ChannelFeed
      then (if givenString (channelId ps) = None then Some (InvalidFeedParameters kind) else None)
      else if kind = ListFeed
      then (case userIds ps of
              None \<Rightarrow> Some (InvalidFeedParameters kind)
            | Some ids \<Rightarrow> if length ids = 0 then Some (InvalidFeedParameters kind) else None)
      else None)"

text \<open>
  The first parameters of one scan. For the list feed the loop pops the last id off
  \<^verbatim>\<open>ps.userIds\<close>; an \<^verbatim>\<open>undefined\<close> or empty id leaves the loop (\<open>None\<close>).
\<close>

definition scanTarget ::
  "feedType \<Rightarrow> pagination \<Rightarrow> string option \<Rightarrow> 'r scan \<Rightarrow> param list option \<times> 'r scan" where
  "scanTarget kind ps forUserId st =
     (let untilDate = cursor st in
      case (if kind = HomeFeed then givenString forUserId else None) of
        Some u \<Rightarrow> (Some [PString u, PDate untilDate, PDate untilDate], st)
      | None \<Rightarrow>
      (case (if kind \<in> set [UserFeed, ReactionFeed] then givenString forUserId else None) of
        Some u \<Rightarrow> (Some [PString u, PDate untilDate], st)
      | None \<Rightarrow>
      (case (if kind = RenotesFeed then givenString (noteId ps) else None) of
        Some n \<Rightarrow> (Some [PString n, PDate untilDate], st)
      | None \<Rightarrow>
      (case (if kind = ChannelFeed then givenString (channelId ps) else None) of
        Some c \<Rightarrow> (Some [PString c, PDate untilDate], st)
      | None \<Rightarrow>
      (case (if kind = NotificationFeed then givenString forUserId else None) of
        Some u \<Rightarrow> (Some [PString u, PDate untilDate, PDate untilDate], st)
      | None \<Rightarrow>
      (case (if kind = ListFeed then remainingUserIds st else None) of
        Some ids \<Rightarrow>
          (if ids = [] then (None, st)
           else
             (let targetId = last ids;
                  st' = st \<lparr> remainingUserIds := Some (butlast ids) \<rparr>
              in if targetId = [] then (None, st')
                 else (Some [PString targetId, PDate untilDate], st')))
      | None \<Rightarrow> (Some [PDate untilDate, PDate untilDate], st)))))))"

definition fetchLimitOf :: "feedType \<Rightarrow> pagination \<Rightarrow> int \<Rightarrow> int" where
  "fetchLimitOf kind ps queryLimit = (if kind = ListFeed then min (limit ps) queryLimit else queryLimit)"

definition applyFilter :: "feedType \<Rightarrow> 'r feed_filter option \<Rightarrow> 'r list \<Rightarrow> 'r list" where
  "applyFilter kind filt rows =
     (let chosen =
        (case filt of
           None \<Rightarrow> None
         | Some f \<Rightarrow>
             if kind = NotificationFeed then notificationFilter f
             else if kind = ReactionFeed then reactionFilter f
             else noteFilter f)
      in case chosen of None \<Rightarrow> rows | Some f \<Rightarrow> f rows)"

text \<open>
  One round of the loop of \<^verbatim>\<open>execPaginationQuery\<close>. The parameter \<^verbatim>\<open>userId\<close> of the
  function is \<open>forUserId\<close> here, and its local \<^verbatim>\<open>sinceDate\<close> is \<open>since\<close>.
\<close>

definition scanIteration ::
  "(string \<Rightarrow> param list \<Rightarrow> 'r list option) \<Rightarrow> time_zone \<Rightarrow> ('r \<Rightarrow> date) \<Rightarrow> feedType
     \<Rightarrow> pagination \<Rightarrow> 'r feed_filter option \<Rightarrow> string option \<Rightarrow> int \<Rightarrow> string \<Rightarrow> date option
     \<Rightarrow> 'r scan \<Rightarrow> (exec_error, 'r scan) step" where
  "scanIteration execute zone createdAtOf kind ps filt forUserId queryLimit query since st =
     (case scanTarget kind ps forUserId st of
        (None, st1) \<Rightarrow> Break st1
      | (Some firstParams, st1) \<Rightarrow>
          (let fetchLimit = fetchLimitOf kind ps queryLimit;
               params = firstParams
                        @ (case since of None \<Rightarrow> [] | Some s \<Rightarrow> [PDate s])
                        @ [PNumber fetchLimit];
               st2 = st1 \<lparr> issued := issued st1 @ [params] \<rparr>
           in case execute query params of
                None \<Rightarrow> Throw QueryError
              | Some rows \<Rightarrow>
                  (let st3 = (if length rows > 0
                              then st2 \<lparr> found := found st2 @ applyFilter kind filt rows,
                                         cursor := createdAtOf (last rows) \<rparr>
                              else st2)
                   in if int (length rows) < fetchLimit
                      then
                        (let st4 = st3 \<lparr> scannedPartitions := scannedPartitions st3 + 1,
                                          cursor := endOfPreviousDay zone (cursor st3) \<rparr>
                         in if (case since of None \<Rightarrow> False | Some s \<Rightarrow> dateLess (cursor st4) s)
                            then Break st4
                            else Continue st4)
                      else Continue st3)))"

text \<open>
  \<^verbatim>\<open>execPaginationQuery(kind, ps, filter, userId, maxPartitions)\<close>. The result is the
  state the loop ends in: \<open>found\<close> is the array the function returns, and
  \<open>remainingUserIds\<close> is what is left of the caller's \<^verbatim>\<open>ps.userIds\<close>. Without a client the
  function returns the empty array at once.
\<close>

definition maxPartitionsOf :: "scylla_config \<Rightarrow> int option \<Rightarrow> int" where
  "maxPartitionsOf cfg arg =
     (case arg of
        Some m \<Rightarrow> m
      | None \<Rightarrow> (case configSparseTimelineDays cfg of Some d \<Rightarrow> d | None \<Rightarrow> 14))"

definition queryLimitOf :: "scylla_config \<Rightarrow> int" where
  "queryLimitOf cfg = (case configQueryLimit cfg of Some q \<Rightarrow> q | None \<Rightarrow> 100)"

definition foundLimitOf :: "feedType \<Rightarrow> pagination \<Rightarrow> int" where
  "foundLimitOf kind ps =
     (case (if kind = ListFeed then userIds ps else None) of
        Some ids \<Rightarrow> limit ps * int (length ids)
      | None \<Rightarrow> limit ps)"

definition execPaginationQuery ::
  "(string \<Rightarrow> param list \<Rightarrow> 'r list option) option \<Rightarrow> scylla_config \<Rightarrow> time_zone \<Rightarrow> ('r \<Rightarrow> date)
     \<Rightarrow> (template \<Rightarrow> string) \<Rightarrow> (string \<Rightarrow> int option) \<Rightarrow> int
     \<Rightarrow> feedType \<Rightarrow> pagination \<Rightarrow> 'r feed_filter option \<Rightarrow> string option \<Rightarrow> int option
     \<Rightarrow> (exec_error + 'r scan) option" where
  "execPaginationQuery scyllaClient cfg zone createdAtOf prepared getTimestamp now
       kind ps filt forUserId maxPartitionsArg =
     (case scyllaClient of
        None \<Rightarrow> Some (Inr (initialScan (newDate (Some now)) ps))
      | Some execute \<Rightarrow>
          (case checkFeedParameters kind ps forUserId of
             Some e \<Rightarrow> Some (Inl e)
           | None \<Rightarrow>
               (case preparePaginationQuery prepared getTimestamp now kind ps of
                  (query, until, since) \<Rightarrow>
                    whileLoop
                      (\<lambda>st. int (length (found st)) < foundLimitOf kind ps
                            \<and> scannedPartitions st < maxPartitionsOf cfg maxPartitionsArg)
                      (\<lambda>st. Some (scanIteration execute zone createdAtOf kind ps filt forUserId
                                    (queryLimitOf cfg) query since st))
                      (initialScan until ps))))"

text \<open>
  The states the loop of \<^verbatim>\<open>execPaginationQuery\<close> goes through in at most \<open>n\<close> rounds, with a
  client; there is none when the parameters of the feed kind are refused.
\<close>

definition scanStates ::
  "nat \<Rightarrow> (string \<Rightarrow> param list \<Rightarrow> 'r list option) \<Rightarrow> scylla_config \<Rightarrow> time_zone \<Rightarrow> ('r \<Rightarrow> date)
     \<Rightarrow> (template \<Rightarrow> string) \<Rightarrow> (string \<Rightarrow> int option) \<Rightarrow> int
     \<Rightarrow> feedType \<Rightarrow> pagination \<Rightarrow> 'r feed_filter option \<Rightarrow> string option \<Rightarrow> int option
     \<Rightarrow> 'r scan list" where
  "scanStates n execute cfg zone createdAtOf prepared getTimestamp now
       kind ps filt forUserId maxPartitionsArg =
     (case checkFeedParameters kind ps forUserId of
        Some e \<Rightarrow> []
      | None \<Rightarrow>
          (case preparePaginationQuery prepared getTimestamp now kind ps of
             (query, until, since) \<Rightarrow>
               loopStates n
                 (\<lambda>st. int (length (found st)) < foundLimitOf kind ps
                       \<and> scannedPartitions st < maxPartitionsOf cfg maxPartitionsArg)
                 (\<lambda>st. Some (scanIteration execute zone createdAtOf kind ps filt forUserId
                               (queryLimitOf cfg) query since st))
                 (initialScan until ps)))"

text \<open>
  Modelled from the spec: the range scan of the day-partitioned store for the home feed
  (the statement \<^verbatim>\<open>homeTimeline.select.byUserAndDate\<close> of \<^verbatim>\<open>cql.ts\<close> is not part of the
  sources). A scan reads one partition, the calendar day (in UTC) of its date parameter,
  for one feed owner; it returns the rows created before the upper bound (and after the
  lower bound, when there is one), newest first, cut at the row limit. An Invalid Date is
  of no day and compares with nothing, so a scan with one finds no row.
\<close>

definition dayOf :: "int \<Rightarrow> int" where
  "dayOf t = t div 86400000"

definition samePartition :: "date \<Rightarrow> date \<Rightarrow> bool" where
  "samePartition a b =
     (case (getTime a, getTime b) of
        (Some x, Some y) \<Rightarrow> dayOf x = dayOf y
      | _ \<Rightarrow> False)"

definition timeOrZero :: "date \<Rightarrow> int" where
  "timeOrZero d = (case getTime d of None \<Rightarrow> 0 | Some t \<Rightarrow> t)"

definition asString :: "param \<Rightarrow> string option" where
  "asString p = (case p of PString s \<Rightarrow> Some s | _ \<Rightarrow> None)"

definition asDate :: "param \<Rightarrow> date option" where
  "asDate p = (case p of PDate d \<Rightarrow> Some d | _ \<Rightarrow> None)"

definition asNumber :: "param \<Rightarrow> int option" where
  "asNumber p = (case p of PNumber n \<Rightarrow> Some n | _ \<Rightarrow> None)"

definition partitionScan ::
  "('r \<Rightarrow> string) \<Rightarrow> ('r \<Rightarrow> date) \<Rightarrow> 'r list \<Rightarrow> string \<Rightarrow> date \<Rightarrow> date \<Rightarrow> date option \<Rightarrow> int
     \<Rightarrow> 'r list" where
  "partitionScan feedUserIdOf createdAtOf table owner day upper lower n =
     take (nat n)
       (rev (sort_key (\<lambda>r. timeOrZero (createdAtOf r))
          (filter (\<lambda>r. feedUserIdOf r = owner \<and> samePartition (createdAtOf r) day
                       \<and> dateLess (createdAtOf r) upper
                       \<and> (case lower of None \<Rightarrow> True | Some l \<Rightarrow> dateLess l (createdAtOf r)))
             table)))"

definition homeFeedStore ::
  "('r \<Rightarrow> string) \<Rightarrow> ('r \<Rightarrow> date) \<Rightarrow> 'r list \<Rightarrow> string \<Rightarrow> param list \<Rightarrow> 'r list option" where
  "homeFeedStore feedUserIdOf createdAtOf table query params =
     (case params of
        [p1, p2, p3, p4] \<Rightarrow>
          (case (asString p1, asDate p2, asDate p3, asNumber p4) of
             (Some owner, Some day, Some upper, Some n) \<Rightarrow>
               Some (partitionScan feedUserIdOf createdAtOf table owner day upper None n)
           | _ \<Rightarrow> None)
      | [p1, p2, p3, p4, p5] \<Rightarrow>
          (case (asString p1, asDate p2, asDate p3, asDate p4, asNumber p5) of
             (Some owner, Some day, Some upper, Some lower, Some n) \<Rightarrow>
               Some (partitionScan feedUserIdOf createdAtOf table owner day upper (Some lower) n)
           | _ \<Rightarrow> None)
      | _ \<Rightarrow> None)"

text \<open>
  Requests, a zone and a table for the scenarios. \<open>utcZone\<close> is a server whose local time
  is UTC. A row of the table is the pair of its feed owner and its creation date. The
  clock stands at day 10; the table holds five rows of bob's feed, all of day 7.
\<close>

definition utcZone :: time_zone where
  "utcZone = \<lparr> offsetAtUtc = (\<lambda>t. 0), offsetAtLocal = (\<lambda>t. 0) \<rparr>"

definition plainRequest :: "int \<Rightarrow> pagination" where
  "plainRequest n =
     \<lparr> limit = n, untilId = None, untilDate = None, sinceId = None, sinceDate = None,
       noteId = None, channelId = None, userIds = None \<rparr>"

definition dayTen :: int where
  "dayTen = 10 * 86400000 + 5000"

definition sparseTable :: "(string \<times> date) list" where
  "sparseTable =
     [(''bob'', ValidDate (7 * 86400000 + 100)), (''bob'', ValidDate (7 * 86400000 + 200)),
      (''bob'', ValidDate (7 * 86400000 + 300)), (''bob'', ValidDate (7 * 86400000 + 400)),
      (''bob'', ValidDate (7 * 86400000 + 500))]"

definition emptyStore :: "string \<Rightarrow> param list \<Rightarrow> unit list option" where
  "emptyStore query params = Some []"

definition unitCreatedAt :: "unit \<Rightarrow> date" where
  "unitCreatedAt r = ValidDate 0"

definition listRequest :: "int \<Rightarrow> string list \<Rightarrow> pagination" where
  "listRequest n ids = (plainRequest n) \<lparr> userIds := Some ids \<rparr>"

definition noTemplates :: "template \<Rightarrow> string" where
  "noTemplates t = ''SELECT''"

definition zeroTimestamp :: "string \<Rightarrow> int option" where
  "zeroTimestamp i = Some 0"

definition idTimestamp :: "string \<Rightarrow> int option" where
  "idTimestamp i = (if i = ''s'' then Some 600 else Some 0)"

definition boundedRequest :: pagination where
  "boundedRequest =
     (plainRequest 10) \<lparr> untilId := Some ''u'', untilDate := Some 500,
                         sinceId := Some ''s'', sinceDate := Some 700 \<rparr>"

definition noConfig :: scylla_config where
  "noConfig = \<lparr> configSparseTimelineDays = None, configQueryLimit = None \<rparr>"

section \<open>The pagination bounds as the specification words them\<close>

text \<open>
  The until bound starts from the time decoded from the until id when one is given, and
  from the clock otherwise (\<open>untilBase\<close>); it is replaced by the explicit until time when
  that is earlier. The since bound is the later of the time decoded from the since id and
  the explicit since time, and absent when neither is given. "Given" is JavaScript's
  truthiness: an id that is the empty string and a time that is 0 count as not given. A
  bound is a date: a time out of the range of a date, or \<^verbatim>\<open>NaN\<close>, makes it an Invalid Date,
  and nothing is earlier or later than an Invalid Date.
\<close>

definition untilBase :: "(string \<Rightarrow> int option) \<Rightarrow> int \<Rightarrow> pagination \<Rightarrow> int option" where
  "untilBase getTimestamp now ps =
     (case givenString (untilId ps) of None \<Rightarrow> Some now | Some i \<Rightarrow> getTimestamp i)"

definition resolvedUntil :: "(string \<Rightarrow> int option) \<Rightarrow> int \<Rightarrow> pagination \<Rightarrow> date" where
  "resolvedUntil getTimestamp now ps =
     (case givenNumber (untilDate ps) of
        None \<Rightarrow> newDate (untilBase getTimestamp now ps)
      | Some d \<Rightarrow>
          if numberLess (Some d) (getTime (newDate (untilBase getTimestamp now ps)))
          then newDate (Some d)
          else newDate (untilBase getTimestamp now ps))"

definition resolvedSince :: "(string \<Rightarrow> int option) \<Rightarrow> pagination \<Rightarrow> date option" where
  "resolvedSince getTimestamp ps =
     (case (givenString (sinceId ps), givenNumber (sinceDate ps)) of
        (None, None) \<Rightarrow> None
      | (Some i, None) \<Rightarrow> Some (newDate (getTimestamp i))
      | (None, Some d) \<Rightarrow> Some (newDate (Some d))
      | (Some i, Some d) \<Rightarrow>
          Some (if numberLess (getTime (newDate (getTimestamp i))) (Some d)
                then newDate (Some d)
                else newDate (getTimestamp i)))"

definition lowerBoundClause :: "date option \<Rightarrow> string" where
  "lowerBoundClause since = (case since of None \<Rightarrow> [] | Some s \<Rightarrow> '' AND \"createdAt\" > ?'')"

definition paginationQueryText ::
  "(template \<Rightarrow> string) \<Rightarrow> (string \<Rightarrow> int option) \<Rightarrow> feedType \<Rightarrow> pagination \<Rightarrow> string" where
  "paginationQueryText prepared getTimestamp kind ps =
     prepared (templateOf kind) @ '' AND \"createdAt\" < ?''
       @ lowerBoundClause (resolvedSince getTimestamp ps) @ '' LIMIT ?''"

text \<open>The condition of the scan loop.\<close>

definition scanCond :: "feedType \<Rightarrow> pagination \<Rightarrow> int \<Rightarrow> 'r scan \<Rightarrow> bool" where
  "scanCond kind ps maxPartitions st \<longleftrightarrow>
     int (length (found st)) < foundLimitOf kind ps \<and> scannedPartitions st < maxPartitions"


section \<open>The home-timeline endpoint (notes/timeline.ts)\<close>

text \<open>
  \<^verbatim>\<open>array.slice(0, end)\<close> for an integer \<open>end\<close>: a negative end counts from the end of the
  array. \<^verbatim>\<open>ps.limit * 1.5\<close> is truncated towards zero by \<^verbatim>\<open>slice\<close> and rounded down by
  \<^verbatim>\<open>Math.floor\<close>.
\<close>

definition slice0 :: "'a list \<Rightarrow> int \<Rightarrow> 'a list" where
  "slice0 xs e = (if e < 0 then take (nat (int (length xs) + e)) xs else take (nat e) xs)"

definition truncOneAndHalf :: "int \<Rightarrow> int" where
  "truncOneAndHalf n = (if 0 \<le> n then (3 * n) div 2 else - ((3 * (- n)) div 2))"

definition floorOneAndHalf :: "int \<Rightarrow> int" where
  "floorOneAndHalf n = (3 * n) div 2"

text \<open>
  The path over the partitioned store. The predicate sets of the viewer are loaded from
  the caches before the loop and enter it through the filter chain, the parameter
  \<open>chain\<close>; \<^verbatim>\<open>Notes.packMany\<close>, which may drop rows, is the parameter \<open>packMany\<close>. The state
  of the loop is \<^verbatim>\<open>foundPacked\<close> and the request \<^verbatim>\<open>ps\<close>, whose \<^verbatim>\<open>untilDate\<close> the loop
  moves. One round runs \<^verbatim>\<open>execPaginationQuery("home", ps, { note: filter }, user.id)\<close>.
  In \<^verbatim>\<open>timeline.ts\<close> the chain is declared \<^verbatim>\<open>async\<close>, while \<^verbatim>\<open>execPaginationQuery\<close> spreads
  what its note filter returns without awaiting it, which throws on a promise; the model
  takes the chain as the function from rows to rows that \<^verbatim>\<open>execPaginationQuery\<close> is
  written for, so it returns wherever the sources return, with the same value.
  The time value of an Invalid Date is \<^verbatim>\<open>NaN\<close>; in \<^verbatim>\<open>ps.untilDate\<close> it is \<open>None\<close>, as
  \<^verbatim>\<open>undefined\<close> is: the only reader of the field, \<^verbatim>\<open>preparePaginationQuery\<close>, tests its
  truthiness first, and both are falsy.
\<close>

definition scyllaTimelineRound ::
  "(string \<Rightarrow> param list \<Rightarrow> 'r list option) \<Rightarrow> scylla_config \<Rightarrow> time_zone \<Rightarrow> ('r \<Rightarrow> date)
     \<Rightarrow> (template \<Rightarrow> string) \<Rightarrow> (string \<Rightarrow> int option) \<Rightarrow> int
     \<Rightarrow> ('r list \<Rightarrow> 'r list) \<Rightarrow> ('r list \<Rightarrow> 'p list) \<Rightarrow> string
     \<Rightarrow> 'p list \<times> pagination \<Rightarrow> (exec_error, 'p list \<times> pagination) step option" where
  "scyllaTimelineRound execute cfg zone createdAtOf prepared getTimestamp now chain packMany uid state =
     (case state of
        (foundPacked, ps) \<Rightarrow>
          (case execPaginationQuery (Some execute) cfg zone createdAtOf prepared getTimestamp now
                  HomeFeed ps
                  (Some \<lparr> noteFilter = Some chain, reactionFilter = None,
                          notificationFilter = None \<rparr>)
                  (Some uid) None of
             None \<Rightarrow> None
           | Some (Inl e) \<Rightarrow> Some (Throw e)
           | Some (Inr res) \<Rightarrow>
               (let foundNotes = slice0 (found res) (truncOneAndHalf (limit ps));
                    foundPacked' = foundPacked @ packMany foundNotes;
                    ps' = ps \<lparr> userIds := remainingUserIds res \<rparr>
                in if int (length foundNotes) < limit ps then Some (Break (foundPacked', ps'))
                   else if foundNotes = [] then Some (Throw TypeError)
                   else Some (Continue
                          (foundPacked', ps' \<lparr> untilDate := getTime (createdAtOf (last foundNotes)) \<rparr>)))))"

definition scyllaTimeline ::
  "(string \<Rightarrow> param list \<Rightarrow> 'r list option) \<Rightarrow> scylla_config \<Rightarrow> time_zone \<Rightarrow> ('r \<Rightarrow> date)
     \<Rightarrow> (template \<Rightarrow> string) \<Rightarrow> (string \<Rightarrow> int option) \<Rightarrow> int
     \<Rightarrow> ('r list \<Rightarrow> 'r list) \<Rightarrow> ('r list \<Rightarrow> 'p list) \<Rightarrow> string \<Rightarrow> pagination
     \<Rightarrow> (exec_error + 'p list) option" where
  "scyllaTimeline execute cfg zone createdAtOf prepared getTimestamp now chain packMany uid ps =
     (case whileLoop (\<lambda>state. int (length (fst state)) < limit (snd state))
             (scyllaTimelineRound execute cfg zone createdAtOf prepared getTimestamp now chain packMany uid)
             ([], ps) of
        None \<Rightarrow> None
      | Some (Inl e) \<Rightarrow> Some (Inl e)
      | Some (Inr (foundPacked, ps')) \<Rightarrow> Some (Inr (slice0 foundPacked (limit ps'))))"

text \<open>
  The relational path. The query with its conditions is the parameter \<open>getMany\<close>, from
  \<^verbatim>\<open>take\<close> and \<^verbatim>\<open>skip\<close> to a page of rows, \<open>None\<close> when the query throws; every exception
  in the loop becomes the API error \<^verbatim>\<open>queryError\<close>. The state of the loop is \<^verbatim>\<open>found\<close> and
  \<^verbatim>\<open>skip\<close>. Setting \<^verbatim>\<open>found.length\<close> to a negative number throws a \<^verbatim>\<open>RangeError\<close>.
\<close>

definition relationalTimelineRound ::
  "(int \<Rightarrow> int \<Rightarrow> 'n list option) \<Rightarrow> ('n list \<Rightarrow> 'p list) \<Rightarrow> int
     \<Rightarrow> 'p list \<times> int \<Rightarrow> (exec_error, 'p list \<times> int) step option" where
  "relationalTimelineRound getMany packMany pageSize state =
     (case state of
        (foundSoFar, skip) \<Rightarrow>
          (case getMany pageSize skip of
             None \<Rightarrow> Some (Throw QueryError)
           | Some notes \<Rightarrow>
               (let foundNext = foundSoFar @ packMany notes;
                    skipNext = skip + pageSize
                in if int (length notes) < pageSize then Some (Break (foundNext, skipNext))
                   else Some (Continue (foundNext, skipNext)))))"

definition relationalTimeline ::
  "(int \<Rightarrow> int \<Rightarrow> 'n list option) \<Rightarrow> ('n list \<Rightarrow> 'p list) \<Rightarrow> pagination
     \<Rightarrow> (exec_error + 'p list) option" where
  "relationalTimeline getMany packMany ps =
     (case whileLoop (\<lambda>state. int (length (fst state)) < limit ps)
             (relationalTimelineRound getMany packMany (floorOneAndHalf (limit ps)))
             ([], 0) of
        None \<Rightarrow> None
      | Some (Inl e) \<Rightarrow> Some (Inl QueryError)
      | Some (Inr (foundAll, skip)) \<Rightarrow>
          if int (length foundAll) > limit ps
          then (if limit ps < 0 then Some (Inl RangeError)
                else Some (Inr (take (nat (limit ps)) foundAll)))
          else Some (Inr foundAll))"

text \<open>The endpoint takes the first path when the client of the partitioned store exists.\<close>

definition homeTimeline ::
  "(string \<Rightarrow> param list \<Rightarrow> 'r list option) option \<Rightarrow> scylla_config \<Rightarrow> time_zone
     \<Rightarrow> ('r \<Rightarrow> date) \<Rightarrow> (template \<Rightarrow> string) \<Rightarrow> (string \<Rightarrow> int option) \<Rightarrow> int
     \<Rightarrow> ('r list \<Rightarrow> 'r list) \<Rightarrow> ('r list \<Rightarrow> 'p list)
     \<Rightarrow> (int \<Rightarrow> int \<Rightarrow> 'n list option) \<Rightarrow> ('n list \<Rightarrow> 'p list)
     \<Rightarrow> string \<Rightarrow> pagination \<Rightarrow> (exec_error + 'p list) option" where
  "homeTimeline scyllaClient cfg zone createdAtOf prepared getTimestamp now chain packMany
       getMany packManyRelational uid ps =
     (case scyllaClient of
        Some execute \<Rightarrow>
          scyllaTimeline execute cfg zone createdAtOf prepared getTimestamp now chain packMany uid ps
      | None \<Rightarrow> relationalTimeline getMany packManyRelational ps)"

text \<open>
  For the scenarios: a table with three rows of bob's feed on the day of the clock, and a
  relational result of five rows read page by page.
\<close>

definition todayTable :: "(string \<times> date) list" where
  "todayTable =
     [(''bob'', ValidDate (10 * 86400000 + 4000)), (''bob'', ValidDate (10 * 86400000 + 3000)),
      (''bob'', ValidDate (10 * 86400000 + 2000))]"

definition pagedRows :: "'n list \<Rightarrow> int \<Rightarrow> int \<Rightarrow> 'n list option" where
  "pagedRows rows pageSize skip = Some (take (nat pageSize) (drop (nat skip) rows))"

definition keepAll :: "'a list \<Rightarrow> 'a list" where
  "keepAll rows = rows"


section \<open>Word mutes: what the predicate computes\<close>

text \<open>The loop over the patterns finds a match exactly when some pattern matches.\<close>

lemma mutePatternLoop_iff:
  "mutePatternLoop toLowerCase re2 t pats \<longleftrightarrow> (\<exists>p \<in> set pats. patternMatches toLowerCase re2 t p)"
proof (induction pats)
  case Nil
  then show ?case by simp
next
  case (Cons p pats)
  show ?case
  proof (cases p)
    case (Keywords ks)
    with Cons show ?thesis
      by (auto simp: patternMatches_def literalMatches_def list_all_iff Let_def filter_empty_conv)
  next
    case (RegExpSrc src)
    with Cons show ?thesis
      by (auto simp: patternMatches_def regexMatches_def split: option.splits bool.splits)
  qed
qed

text \<open>
  The JavaScript match of \<^verbatim>\<open>/^\/(.+)\/(.*)$/\<close> succeeds exactly on the strings
  \<^verbatim>\<open>/body/flags\<close> with a non-empty body, no slash in the flags and no line terminator,
  and it returns that body and those flags.
\<close>

lemma flags_of_slashed:
  fixes f b :: js_string
  assumes "0x2F \<notin> set f"
  shows "takeWhile (\<lambda>x. x \<noteq> 0x2F) (rev (b @ 0x2F # f)) = rev f"
proof -
  have "takeWhile (\<lambda>x. x \<noteq> 0x2F) (rev f @ 0x2F # rev b) = rev f"
    using assms by (subst takeWhile_tail) (auto simp: takeWhile_eq_all_conv)
  then show ?thesis by simp
qed

lemma match_regexp_source_intro:
  fixes f b :: js_string
  assumes "b \<noteq> []" "0x2F \<notin> set f" "\<not> list_ex is_line_terminator (0x2F # b @ 0x2F # f)"
  shows "match_regexp_source (0x2F # b @ 0x2F # f) = Some (b, f)"
  using assms(1,3) flags_of_slashed [OF assms(2), of b]
  unfolding match_regexp_source_def by (simp add: Let_def)

lemma match_regexp_source_elim:
  assumes "match_regexp_source s = Some (b, f)"
  shows "s = 0x2F # b @ 0x2F # f \<and> b \<noteq> [] \<and> 0x2F \<notin> set f \<and>
     \<not> list_ex is_line_terminator s"
proof -
  let ?P = "\<lambda>x :: code_unit. x \<noteq> 0x2F"
  from assms obtain rest where s: "s = 0x2F # rest" and nolt: "\<not> list_ex is_line_terminator s"
    by (auto simp: match_regexp_source_def split: list.splits if_splits)
  from assms s have f: "f = rev (takeWhile ?P (rev rest))"
    and len: "length f \<noteq> length rest"
    and b: "b = take (length rest - length f - 1) rest" and bne: "b \<noteq> []"
    by (auto simp: match_regexp_source_def Let_def split: if_splits)
  have split_rev: "rev rest = rev f @ dropWhile ?P (rev rest)"
    using f by simp
  have "dropWhile ?P (rev rest) \<noteq> []"
  proof
    assume "dropWhile ?P (rev rest) = []"
    with split_rev have "rev rest = rev f" by simp
    then have "length rest = length f" by (metis length_rev)
    with len show False by simp
  qed
  then obtain d where d: "dropWhile ?P (rev rest) = 0x2F # d"
    using hd_dropWhile [of ?P "rev rest"] by (cases "dropWhile ?P (rev rest)") auto
  from split_rev d have "rev rest = rev f @ 0x2F # d" by simp
  then have "rev (rev rest) = rev (rev f @ 0x2F # d)" by simp
  then have rest: "rest = rev d @ 0x2F # f" by simp
  then have "b = rev d" using b by simp
  moreover have "0x2F \<notin> set f"
    using f set_takeWhileD [of "0x2F" ?P "rev rest"] by auto
  ultimately show ?thesis using s rest bne nolt by simp
qed

lemma match_regexp_source_iff:
  "match_regexp_source s = Some (b, f) \<longleftrightarrow>
     s = 0x2F # b @ 0x2F # f \<and> b \<noteq> [] \<and> 0x2F \<notin> set f \<and>
     \<not> list_ex is_line_terminator s"
  using match_regexp_source_elim match_regexp_source_intro by blast

text \<open>
  \<^verbatim>\<open>trim\<close> leaves the empty string exactly when every code unit is white space, and what
  it leaves neither starts nor ends with white space.
\<close>

lemma dropWhile_rev_dropWhile_empty:
  "dropWhile P (rev (dropWhile P s)) = [] \<longleftrightarrow> dropWhile P s = []"
proof
  assume all: "dropWhile P (rev (dropWhile P s)) = []"
  show "dropWhile P s = []"
  proof (rule ccontr)
    assume ne: "dropWhile P s \<noteq> []"
    then have "\<not> P (hd (dropWhile P s))" by (rule hd_dropWhile)
    moreover from ne have "hd (dropWhile P s) \<in> set (rev (dropWhile P s))" by simp
    moreover from all have "\<forall>x \<in> set (rev (dropWhile P s)). P x"
      by (simp add: dropWhile_eq_Nil_conv)
    ultimately show False by blast
  qed
next
  assume "dropWhile P s = []"
  then show "dropWhile P (rev (dropWhile P s)) = []" by (simp del: dropWhile_eq_Nil_conv)
qed

lemma trim_empty_iff: "trim s = [] \<longleftrightarrow> list_all is_js_space s"
proof -
  have "trim s = [] \<longleftrightarrow> dropWhile is_js_space (rev (dropWhile is_js_space s)) = []"
    unfolding trim_def by (simp only: rev_is_Nil_conv)
  also have "\<dots> \<longleftrightarrow> dropWhile is_js_space s = []"
    by (rule dropWhile_rev_dropWhile_empty)
  also have "\<dots> \<longleftrightarrow> list_all is_js_space s"
    by (simp add: list_all_iff)
  finally show ?thesis .
qed

lemma last_dropWhile:
  assumes "dropWhile P xs \<noteq> []"
  shows "last (dropWhile P xs) = last xs"
  using assms by (induction xs) (auto split: if_splits)

lemma trim_ends:
  assumes "trim s \<noteq> []"
  shows "\<not> is_js_space (hd (trim s)) \<and> \<not> is_js_space (last (trim s))"
proof -
  define d where "d = dropWhile is_js_space s"
  define e where "e = dropWhile is_js_space (rev d)"
  have t: "trim s = rev e" by (simp add: trim_def d_def e_def)
  from assms t have e: "e \<noteq> []" by simp
  then have d: "d \<noteq> []" by (auto simp: e_def)
  from e have hd_e: "\<not> is_js_space (hd e)" unfolding e_def by (rule hd_dropWhile)
  from d have hd_d: "\<not> is_js_space (hd d)" unfolding d_def by (rule hd_dropWhile)
  from e have "last e = last (rev d)" unfolding e_def by (rule last_dropWhile)
  with d have "last e = hd d" by (simp add: last_rev)
  with hd_d have "\<not> is_js_space (last e)" by simp
  with hd_e e t show ?thesis by (simp add: hd_rev last_rev)
qed

lemma textOnly_concat:
  "concatText sc (textOnlyNote t) =
     (if sc then 0x20 # orEmpty t @ [0x20, 0x20, 0x20] else 0x20 # orEmpty t)"
  by (simp add: concatText_def textOnlyNote_def orEmpty_def withCaptions_def)

lemma textOnly_muteText_ascii:
  "muteText sc (textOnlyNote (Some (utf16 ''foo only''))) = utf16 ''foo only''"
  "muteText sc (textOnlyNote (Some (utf16 ''FOO bar''))) = utf16 ''FOO bar''"
  "muteText sc (textOnlyNote (Some (utf16 ''hello''))) = utf16 ''hello''"
  "muteText sc (textOnlyNote None) = []"
  by (simp_all add: muteText_def textOnly_concat orEmpty_def trim_def is_js_space_def utf16_def)

text \<open>
  C9, as amended. For every note, every list of mute patterns, every lower-casing
  function and every engine, \<^verbatim>\<open>checkWordMute\<close> answers true exactly when the trimmed
  concatenated text of the note is non-empty and some configured pattern matches it: a
  literal pattern matches when it has a non-empty keyword and every non-empty keyword, in
  lower case, occurs in the text in lower case; a pattern \<^verbatim>\<open>/body/flags\<close> matches when the
  engine finds a match; a pattern that is not of that form, or that the engine rejects,
  matches nothing, and the check never fails. The trimmed text is empty exactly when the
  concatenated text is white space only. A \<^verbatim>\<open>null\<close> note is never muted. The literal
  pattern \<^verbatim>\<open>["foo","bar"]\<close> does not match the text "foo only" when \<^verbatim>\<open>toLowerCase\<close> leaves
  these three lower-case strings as they are, and \<^verbatim>\<open>/foo/i\<close> matches "FOO bar" with an
  engine that finds \<^verbatim>\<open>foo\<close>, ignoring case, in "FOO bar".
\<close>

theorem wordMute_matches_some_pattern:
  fixes n :: "'r note_row"
  shows "(checkWordMute toLowerCase re2 sc (Some n) pats \<longleftrightarrow>
            muteText sc n \<noteq> []
            \<and> (\<exists>p \<in> set pats. patternMatches toLowerCase re2 (muteText sc n) p))
     \<and> (muteText sc n = [] \<longleftrightarrow> list_all is_js_space (concatText sc n))
     \<and> \<not> checkWordMute toLowerCase re2 sc (None :: 'r note_row option) pats
     \<and> (toLowerCase (utf16 ''foo only'') = utf16 ''foo only''
          \<and> toLowerCase (utf16 ''foo'') = utf16 ''foo''
          \<and> toLowerCase (utf16 ''bar'') = utf16 ''bar''
        \<longrightarrow> \<not> checkWordMute toLowerCase re2 sc (Some (textOnlyNote (Some (utf16 ''foo only''))))
                [Keywords [utf16 ''foo'', utf16 ''bar'']])
     \<and> (re2 (utf16 ''foo'') (utf16 ''i'') (utf16 ''FOO bar'') = Some True \<longrightarrow>
          checkWordMute toLowerCase re2 sc (Some (textOnlyNote (Some (utf16 ''FOO bar''))))
            [RegExpSrc (utf16 ''/foo/i'')])"
proof -
  have general: "checkWordMute toLowerCase re2 sc (Some n) pats \<longleftrightarrow>
      muteText sc n \<noteq> [] \<and> (\<exists>p \<in> set pats. patternMatches toLowerCase re2 (muteText sc n) p)"
    by (simp add: checkWordMute_def Let_def mutePatternLoop_iff)
  have blank: "muteText sc n = [] \<longleftrightarrow> list_all is_js_space (concatText sc n)"
    by (simp add: muteText_def trim_empty_iff)
  have absent: "\<not> checkWordMute toLowerCase re2 sc (None :: 'r note_row option) pats"
    by (simp add: checkWordMute_def)
  have apart: "\<not> str_includes (utf16 ''foo only'') (utf16 ''bar'')"
    "utf16 ''foo'' \<noteq> []" "utf16 ''bar'' \<noteq> []"
    by (simp_all add: utf16_def)
  have ex1: "\<not> checkWordMute toLowerCase re2 sc (Some (textOnlyNote (Some (utf16 ''foo only''))))
                [Keywords [utf16 ''foo'', utf16 ''bar'']]"
    if "toLowerCase (utf16 ''foo only'') = utf16 ''foo only''"
      "toLowerCase (utf16 ''foo'') = utf16 ''foo''"
      "toLowerCase (utf16 ''bar'') = utf16 ''bar''"
    using that apart by (simp add: checkWordMute_def textOnly_muteText_ascii Let_def)
  have src: "match_regexp_source (utf16 ''/foo/i'') = Some (utf16 ''foo'', utf16 ''i'')"
    by (simp add: match_regexp_source_def is_line_terminator_def utf16_def)
  have ex2: "re2 (utf16 ''foo'') (utf16 ''i'') (utf16 ''FOO bar'') = Some True \<longrightarrow>
          checkWordMute toLowerCase re2 sc (Some (textOnlyNote (Some (utf16 ''FOO bar''))))
            [RegExpSrc (utf16 ''/foo/i'')]"
    by (simp add: checkWordMute_def textOnly_muteText_ascii src) (simp add: utf16_def)
  from general blank absent ex1 ex2 show ?thesis by blast
qed

text \<open>
  The theorem at the stand-ins, the text "FOO bar" and the pattern \<^verbatim>\<open>/foo/i\<close>: the engine
  finds the match, so the note is muted and the pattern matches in the sense of the
  specification; and at the text "foo only" with the keywords foo and bar.
\<close>

theorem wordMute_matches_some_pattern_witness:
  "sample_re2 (utf16 ''foo'') (utf16 ''i'') (utf16 ''FOO bar'') = Some True
   \<and> checkWordMute asciiLowerCase sample_re2 True (Some (textOnlyNote (Some (utf16 ''FOO bar''))))
       [RegExpSrc (utf16 ''/foo/i'')]
   \<and> muteText True (textOnlyNote (Some (utf16 ''FOO bar''))) = utf16 ''FOO bar''
   \<and> patternMatches asciiLowerCase sample_re2 (utf16 ''FOO bar'') (RegExpSrc (utf16 ''/foo/i''))
   \<and> asciiLowerCase (utf16 ''foo only'') = utf16 ''foo only''
   \<and> asciiLowerCase (utf16 ''foo'') = utf16 ''foo''
   \<and> asciiLowerCase (utf16 ''bar'') = utf16 ''bar''
   \<and> \<not> checkWordMute asciiLowerCase sample_re2 True (Some (textOnlyNote (Some (utf16 ''foo only''))))
         [Keywords [utf16 ''foo'', utf16 ''bar'']]"
proof -
  have e: "sample_re2 (utf16 ''foo'') (utf16 ''i'') (utf16 ''FOO bar'') = Some True"
    by code_simp
  have l: "asciiLowerCase (utf16 ''foo only'') = utf16 ''foo only''"
    "asciiLowerCase (utf16 ''foo'') = utf16 ''foo''"
    "asciiLowerCase (utf16 ''bar'') = utf16 ''bar''"
    by code_simp+
  have t: "muteText True (textOnlyNote (Some (utf16 ''FOO bar''))) = utf16 ''FOO bar''"
    by (rule textOnly_muteText_ascii)
  note inst = wordMute_matches_some_pattern
    [of asciiLowerCase sample_re2 True "textOnlyNote (Some (utf16 ''FOO bar''))"
        "[RegExpSrc (utf16 ''/foo/i'')]"]
  from inst e
  have c: "checkWordMute asciiLowerCase sample_re2 True (Some (textOnlyNote (Some (utf16 ''FOO bar''))))
       [RegExpSrc (utf16 ''/foo/i'')]"
    by blast
  with inst have "\<exists>p \<in> set [RegExpSrc (utf16 ''/foo/i'')].
      patternMatches asciiLowerCase sample_re2 (muteText True (textOnlyNote (Some (utf16 ''FOO bar'')))) p"
    by blast
  then have m: "patternMatches asciiLowerCase sample_re2 (utf16 ''FOO bar'') (RegExpSrc (utf16 ''/foo/i''))"
    by (simp add: t)
  from inst l
  have k: "\<not> checkWordMute asciiLowerCase sample_re2 True (Some (textOnlyNote (Some (utf16 ''foo only''))))
         [Keywords [utf16 ''foo'', utf16 ''bar'']]"
    by blast
  from e c t m l k show ?thesis by blast
qed

text \<open>
  C9 as stated fails on a note without any text: the pattern \<^verbatim>\<open>/.*/\<close> matches the empty
  text, and \<^verbatim>\<open>checkWordMute\<close> answers false, by its guard \<^verbatim>\<open>if (text === "") return false\<close>.
\<close>

theorem wordMute_empty_text_counterexample:
  "patternMatches asciiLowerCase sample_re2 (muteText True (textOnlyNote None)) (RegExpSrc (utf16 ''/.*/''))
   \<and> \<not> checkWordMute asciiLowerCase sample_re2 True (Some (textOnlyNote None)) [RegExpSrc (utf16 ''/.*/'')]"
proof -
  have t: "muteText True (textOnlyNote None) = []"
    by (rule textOnly_muteText_ascii)
  have src: "match_regexp_source (utf16 ''/.*/'') = Some (utf16 ''.*'', [])"
    by (simp add: match_regexp_source_def is_line_terminator_def utf16_def)
  have e: "sample_re2 (utf16 ''.*'') [] [] = Some True"
    by code_simp
  show ?thesis
    by (simp add: t patternMatches_def regexMatches_def src e checkWordMute_def)
qed

text \<open>
  Beyond ASCII. A note whose text is the no-break space U+00A0 has an empty trimmed text
  and is never muted. With a \<^verbatim>\<open>toLowerCase\<close> that maps U+00C9 to U+00E9 and leaves U+00E9,
  the keyword U+00C9 mutes the text U+00E9.
\<close>

lemma wordMute_no_break_space:
  "\<not> checkWordMute toLowerCase re2 sc (Some (textOnlyNote (Some [0xA0]))) pats"
  by (simp add: checkWordMute_def muteText_def textOnly_concat orEmpty_def trim_def is_js_space_def)

lemma wordMute_latin_capital:
  assumes "toLowerCase [0xC9] = [0xE9]" "toLowerCase [0xE9] = [0xE9]"
  shows "checkWordMute toLowerCase re2 sc (Some (textOnlyNote (Some [0xE9]))) [Keywords [[0xC9]]]"
proof -
  have "muteText sc (textOnlyNote (Some [0xE9])) = [0xE9]"
    by (simp add: muteText_def textOnly_concat orEmpty_def trim_def is_js_space_def)
  with assms show ?thesis by (simp add: checkWordMute_def)
qed

section \<open>The word-mute step of the filter chain\<close>

text \<open>
  C1. With a non-empty pattern list, \<^verbatim>\<open>filterMutedNote\<close> returns no row at all, whatever
  the rows hold: its predicate negates the promise that \<^verbatim>\<open>getWordHardMute\<close> returns, and a
  promise is truthy. With the empty pattern list it returns the batch unchanged. The row
  with the text "hello" matches none of the patterns \<^verbatim>\<open>[["spam"]]\<close> (the awaited answer is
  false, \<^verbatim>\<open>toLowerCase\<close> leaving the two lower-case strings as they are), and it is dropped
  all the same.
\<close>

theorem filterMutedNote_drops_every_row:
  "filterMutedNote toLowerCase re2 sc notes usr (p # ps) = []
   \<and> filterMutedNote toLowerCase re2 sc notes usr [] = notes
   \<and> (toLowerCase (utf16 ''hello'') = utf16 ''hello'' \<and> toLowerCase (utf16 ''spam'') = utf16 ''spam''
      \<longrightarrow> await (getWordHardMute toLowerCase re2 True (textOnlyNote (Some (utf16 ''hello'')))
                  (MeObject (User ''bob'')) (Some [Keywords [utf16 ''spam'']])) = False)
   \<and> filterMutedNote toLowerCase re2 True [textOnlyNote (Some (utf16 ''hello''))] (User ''bob'')
        [Keywords [utf16 ''spam'']] = []"
proof -
  have all: "filterMutedNote toLowerCase re2 sc notes usr (p # ps) = []"
    by (simp add: filterMutedNote_def truthyPromise_def getWordHardMute_def)
  have none: "filterMutedNote toLowerCase re2 sc notes usr [] = notes"
    by (simp add: filterMutedNote_def)
  have apart: "\<not> str_includes (utf16 ''hello'') (utf16 ''spam'')" "utf16 ''spam'' \<noteq> []"
    by (simp_all add: utf16_def)
  have awaited: "await (getWordHardMute toLowerCase re2 True (textOnlyNote (Some (utf16 ''hello'')))
                  (MeObject (User ''bob'')) (Some [Keywords [utf16 ''spam'']])) = False"
    if "toLowerCase (utf16 ''hello'') = utf16 ''hello''" "toLowerCase (utf16 ''spam'') = utf16 ''spam''"
    using that apart
    by (simp add: await_def getWordHardMute_def strictEqualsMe_def checkWordMute_def
        textOnly_muteText_ascii Let_def)
  have one: "filterMutedNote toLowerCase re2 True [textOnlyNote (Some (utf16 ''hello''))] (User ''bob'')
        [Keywords [utf16 ''spam'']] = []"
    by (simp add: filterMutedNote_def truthyPromise_def getWordHardMute_def)
  from all none awaited one show ?thesis by blast
qed

text \<open>
  The theorem at the stand-ins: the awaited answer for the row "hello" is false, and the
  filter returns no row.
\<close>

theorem filterMutedNote_drops_every_row_witness:
  "asciiLowerCase (utf16 ''hello'') = utf16 ''hello''
   \<and> asciiLowerCase (utf16 ''spam'') = utf16 ''spam''
   \<and> await (getWordHardMute asciiLowerCase sample_re2 True (textOnlyNote (Some (utf16 ''hello'')))
              (MeObject (User ''bob'')) (Some [Keywords [utf16 ''spam'']])) = False
   \<and> filterMutedNote asciiLowerCase sample_re2 True [textOnlyNote (Some (utf16 ''hello''))] (User ''bob'')
        [Keywords [utf16 ''spam'']] = []"
proof -
  have l: "asciiLowerCase (utf16 ''hello'') = utf16 ''hello''"
    "asciiLowerCase (utf16 ''spam'') = utf16 ''spam''"
    by code_simp+
  from filterMutedNote_drops_every_row [of asciiLowerCase sample_re2] l
  show ?thesis by blast
qed

section \<open>The visibility step of the filter chain\<close>

text \<open>
  What \<^verbatim>\<open>filterVisibility\<close> lets pass. The tests on the visible-user ids and on the
  mentions do not depend on the visibility of the row.
\<close>

lemma filterVisibility_member:
  "note \<in> set (filterVisibility notes (Some u) followingIds) \<longleftrightarrow>
     note \<in> set notes \<and>
     (visibility note = Public \<or> visibility note = Home
      \<or> userId note = user_id u
      \<or> user_id u \<in> set (visibleUserIds note)
      \<or> user_id u \<in> set (mentions note)
      \<or> (visibility note = Followers
           \<and> (userId note \<in> set followingIds \<or> replyUserId note = Some (user_id u))))"
  by (auto simp: filterVisibility_def)

lemma filterVisibility_anonymous:
  "note \<in> set (filterVisibility notes None followingIds) \<longleftrightarrow>
     note \<in> set notes \<and> (visibility note = Public \<or> visibility note = Home)"
  by (auto simp: filterVisibility_def)


text \<open>
  C2. A specified-scoped note of alice, addressed to carol and mentioning bob, passes
  \<^verbatim>\<open>filterVisibility\<close> for the viewer bob, who is neither its author nor among its
  visible-user ids; \<^verbatim>\<open>isVisibleForMe\<close> hides the same note from bob.
\<close>

theorem filterVisibility_passes_direct_note_to_mentioned_viewer:
  "filterVisibility [mentionedDirectNote] (Some (User ''bob'')) [] = [mentionedDirectNote]
   \<and> isVisibleForMe db mentionedDirectNote (Some ''bob'') = Some False
   \<and> visibility mentionedDirectNote = Specified
   \<and> userId mentionedDirectNote \<noteq> ''bob''
   \<and> ''bob'' \<notin> set (visibleUserIds mentionedDirectNote)"
  by (simp add: filterVisibility_def isVisibleForMe_def mentionedDirectNote_def textOnlyNote_def)

section \<open>The membership cache: when it reloads\<close>

lemma clock_put [simp]: "clock (put k v e r) = clock r"
  by (simp add: put_def)

lemma clock_remove [simp]: "clock (remove k r) = clock r"
  by (simp add: remove_def)

lemma map_of_without_key:
  "map_of (filter (\<lambda>x. fst x \<noteq> k) xs) k' = (if k' = k then None else map_of xs k')"
  by (induction xs) auto

lemma lookup_remove: "lookup (remove k r) k' = (if k' = k then None else lookup r k')"
  by (simp add: lookup_def remove_def map_of_without_key split: option.splits)

lemma lookup_put:
  "lookup (put k v e r) k' =
     (if k' = k then (if expired (clock r) e then None else Some (v, e)) else lookup r k')"
  by (simp add: lookup_def put_def map_of_without_key split: option.splits)

lemma marker_key_differs: "key c \<noteq> key c @ '':fetched''"
  by simp

lemma fetch_reload:
  assumes "hasFollowing c r = Inr has" and "\<not> has \<or> redis_exists (key c @ '':fetched'') r = 0"
  shows "\<exists>r'. fetch c r = Inr r'
           \<and> members c r' = Inr (remdups (fetcher c))
           \<and> lookup r' (key c @ '':fetched'') = Some (RString ''yes'', Some (clock r + 1800))
           \<and> (fetcher c \<noteq> [] \<longrightarrow> lookup r' (key c) = Some (RSet (remdups (fetcher c)), None))
           \<and> (fetcher c = [] \<longrightarrow> lookup r' (key c) = None)"
proof -
  let ?r1 = "redis_del [key c] r"
  have r1: "lookup ?r1 (key c) = None" and c1: "clock ?r1 = clock r"
    by (simp_all add: redis_del_def lookup_remove)
  show ?thesis
  proof (cases "fetcher c = []")
    case True
    then have "fetch c r = Inr (redis_set (key c @ '':fetched'') ''yes'' (60 * 30) ?r1)"
      using assms by (auto simp: fetch_def follow_def)
    then show ?thesis
      using True r1 c1
      by (simp add: members_def redis_smembers_def redis_set_def lookup_put expired_def)
  next
    case False
    let ?r2 = "put (key c) (RSet (remdups (fetcher c))) None ?r1"
    have "follow c (fetcher c) ?r1 = Inr ?r2"
      using False r1 by (simp add: follow_def redis_sadd_def)
    then have "fetch c r = Inr (redis_set (key c @ '':fetched'') ''yes'' (60 * 30) ?r2)"
      using assms by (auto simp: fetch_def)
    then show ?thesis
      using False c1
      by (simp add: members_def redis_smembers_def redis_set_def lookup_put expired_def)
  qed
qed

text \<open>
  C3, as amended. \<^verbatim>\<open>SetCache.fetch\<close> (run by \<^verbatim>\<open>LocalFollowingsCache.init\<close> and
  \<^verbatim>\<open>ChannelFollowingsCache.init\<close>) reloads when the cached set is empty or the freshness
  marker is absent: it then deletes the set, writes the members the producer returned, and
  sets the marker to "yes" with a time to live of 30 minutes (the set itself gets no
  expiry). It leaves the store as it is exactly when the set is non-empty and the marker
  is present. An error of the store on reading the set is passed on.
\<close>

theorem fetch_reloads_when_cold_or_stale:
  "(hasFollowing c r = Inr True \<and> redis_exists (key c @ '':fetched'') r \<noteq> 0 \<longrightarrow> fetch c r = Inr r)
   \<and> (hasFollowing c r = Inr False
        \<or> (hasFollowing c r = Inr True \<and> redis_exists (key c @ '':fetched'') r = 0) \<longrightarrow>
       (\<exists>r'. fetch c r = Inr r'
           \<and> members c r' = Inr (remdups (fetcher c))
           \<and> lookup r' (key c @ '':fetched'') = Some (RString ''yes'', Some (clock r + 60 * 30))
           \<and> (fetcher c \<noteq> [] \<longrightarrow> lookup r' (key c) = Some (RSet (remdups (fetcher c)), None))
           \<and> (fetcher c = [] \<longrightarrow> lookup r' (key c) = None)))
   \<and> (hasFollowing c r = Inl e \<longrightarrow> fetch c r = Inl e)"
proof -
  have warm: "hasFollowing c r = Inr True \<and> redis_exists (key c @ '':fetched'') r \<noteq> 0 \<longrightarrow> fetch c r = Inr r"
    by (simp add: fetch_def)
  have err: "hasFollowing c r = Inl e \<longrightarrow> fetch c r = Inl e"
    by (simp add: fetch_def)
  have reload: "hasFollowing c r = Inr False
        \<or> (hasFollowing c r = Inr True \<and> redis_exists (key c @ '':fetched'') r = 0) \<longrightarrow>
       (\<exists>r'. fetch c r = Inr r'
           \<and> members c r' = Inr (remdups (fetcher c))
           \<and> lookup r' (key c @ '':fetched'') = Some (RString ''yes'', Some (clock r + 60 * 30))
           \<and> (fetcher c \<noteq> [] \<longrightarrow> lookup r' (key c) = Some (RSet (remdups (fetcher c)), None))
           \<and> (fetcher c = [] \<longrightarrow> lookup r' (key c) = None))"
    using fetch_reload [of c r False] fetch_reload [of c r True] by auto
  from warm reload err show ?thesis by blast
qed

text \<open>
  The theorem on two stores: a warm set without a marker is reloaded, and the store that
  results, warm and marked, is left as it is.
\<close>

theorem fetch_reloads_when_cold_or_stale_witness:
  "hasFollowing bobFollowings warmUnmarkedRedis = Inr True
   \<and> redis_exists (key bobFollowings @ '':fetched'') warmUnmarkedRedis = 0
   \<and> (\<exists>r'. fetch bobFollowings warmUnmarkedRedis = Inr r'
          \<and> members bobFollowings r' = Inr [''carol'']
          \<and> lookup r' (key bobFollowings @ '':fetched'') = Some (RString ''yes'', Some 6800))
   \<and> hasFollowing bobFollowings syncedRedis = Inr True
   \<and> redis_exists (key bobFollowings @ '':fetched'') syncedRedis = 1
   \<and> fetch bobFollowings syncedRedis = Inr syncedRedis"
proof -
  have w: "hasFollowing bobFollowings warmUnmarkedRedis = Inr True"
    by (simp add: bobFollowings_def SetCache_def warmUnmarkedRedis_def hasFollowing_def
        redis_scard_def lookup_def expired_def)
  have m: "redis_exists (key bobFollowings @ '':fetched'') warmUnmarkedRedis = 0"
    by (simp add: bobFollowings_def SetCache_def warmUnmarkedRedis_def redis_exists_def
        lookup_def)
  have s: "hasFollowing bobFollowings syncedRedis = Inr True"
    by (simp add: bobFollowings_def SetCache_def syncedRedis_def hasFollowing_def
        redis_scard_def lookup_def expired_def)
  have n: "redis_exists (key bobFollowings @ '':fetched'') syncedRedis = 1"
    by (simp add: bobFollowings_def SetCache_def syncedRedis_def redis_exists_def
        lookup_def expired_def)
  have f: "fetcher bobFollowings = [''carol'']" and c: "clock warmUnmarkedRedis = 5000"
    by (simp_all add: bobFollowings_def SetCache_def warmUnmarkedRedis_def)
  from fetch_reloads_when_cold_or_stale [of bobFollowings warmUnmarkedRedis] w m
  have "\<exists>r'. fetch bobFollowings warmUnmarkedRedis = Inr r'
          \<and> members bobFollowings r' = Inr [''carol'']
          \<and> lookup r' (key bobFollowings @ '':fetched'') = Some (RString ''yes'', Some 6800)"
    by (auto simp: f c)
  moreover from fetch_reloads_when_cold_or_stale [of bobFollowings syncedRedis] s n
  have "fetch bobFollowings syncedRedis = Inr syncedRedis"
    by simp
  ultimately show ?thesis using w m s n by simp
qed

text \<open>
  C3 as stated fails on a warm set whose marker has expired: the set is non-empty, and
  \<^verbatim>\<open>fetch\<close> is no no-op; it replaces the member alice by the producer's carol and sets the
  marker.
\<close>

theorem fetch_reloads_warm_set_counterexample:
  "hasFollowing bobFollowings warmUnmarkedRedis = Inr True
   \<and> members bobFollowings warmUnmarkedRedis = Inr [''alice'']
   \<and> fetch bobFollowings warmUnmarkedRedis = Inr syncedRedis
   \<and> syncedRedis \<noteq> warmUnmarkedRedis
   \<and> members bobFollowings syncedRedis = Inr [''carol'']"
  by (simp add: fetch_def bobFollowings_def SetCache_def warmUnmarkedRedis_def syncedRedis_def
      hasFollowing_def members_def redis_smembers_def redis_scard_def lookup_def expired_def
      redis_exists_def redis_del_def remove_def follow_def redis_sadd_def put_def redis_set_def)

section \<open>The keyed cache: what getAll returns\<close>

text \<open>
  The map that \<^verbatim>\<open>getAll\<close> returns holds, under each live key that matches the pattern
  \<^verbatim>\<open>`${this.prefix}*`\<close> and holds a string value, that value, and nothing else. For a
  cache name without a glob character the keys that match are the keys that start with
  the prefix.
\<close>

lemma glob_star_all: "glob_match ''*'' s"
  by (induction s) simp_all

lemma glob_prefix_star:
  assumes "\<forall>c \<in> set p. c \<noteq> CHR ''*'' \<and> c \<noteq> CHR ''?'' \<and> c \<noteq> CHR 0x5C"
  shows "glob_match (p @ ''*'') k \<longleftrightarrow> take (length p) k = p"
  using assms
proof (induction p arbitrary: k)
  case Nil
  then show ?case using glob_star_all by simp
next
  case (Cons c p)
  then show ?case by (cases k) auto
qed

lemma fold_set_entries:
  "fold (\<lambda>(k, val) m. case val of None \<Rightarrow> m | Some v \<Rightarrow> m(k \<mapsto> v)) (zip ks (map g ks)) m0 k
     = (if k \<in> set ks then (case g k of None \<Rightarrow> m0 k | Some v \<Rightarrow> Some v) else m0 k)"
  by (induction ks arbitrary: m0) (auto split: option.splits)

lemma getAll_map:
  "fst (getAll c renew r) k =
     (if glob_match (prefix c @ ''*'') k
      then (case lookup r k of Some (RString v, e) \<Rightarrow> Some v | _ \<Rightarrow> None)
      else None)"
proof -
  let ?keys = "redis_keys (prefix c @ ''*'') r"
  let ?g = "\<lambda>k. case lookup r k of Some (RString v, e) \<Rightarrow> Some v | _ \<Rightarrow> None"
  have mem: "k \<in> set ?keys \<longleftrightarrow> lookup r k \<noteq> None \<and> glob_match (prefix c @ ''*'') k"
    by (auto simp: redis_keys_def lookup_def map_of_eq_None_iff split: option.splits
        dest: map_of_SomeD intro: rev_image_eqI)
  have vals: "redis_mgetBuffer ?keys r = map ?g ?keys"
    by (simp add: redis_mgetBuffer_def)
  show ?thesis
  proof (cases "?keys = []")
    case True
    with mem have "lookup r k = None \<or> \<not> glob_match (prefix c @ ''*'') k" by auto
    with True show ?thesis by (auto simp: getAll_def)
  next
    case False
    then have "fst (getAll c renew r) k
        = fold (\<lambda>(k, val) m. case val of None \<Rightarrow> m | Some v \<Rightarrow> m(k \<mapsto> v))
            (zip ?keys (map ?g ?keys)) Map.empty k"
      by (simp add: getAll_def Let_def vals)
    also have "\<dots> = (if k \<in> set ?keys then (case ?g k of None \<Rightarrow> None | Some v \<Rightarrow> Some v) else None)"
      by (simp add: fold_set_entries)
    finally show ?thesis using mem by (auto split: option.splits prod.splits redis_value.splits)
  qed
qed

lemma getAll_by_prefix:
  assumes "\<forall>ch \<in> set (prefix c). ch \<noteq> CHR ''*'' \<and> ch \<noteq> CHR ''?'' \<and> ch \<noteq> CHR 0x5C"
  shows "fst (getAll c renew r) k =
     (if take (length (prefix c)) k = prefix c
      then (case lookup r k of Some (RString v, e) \<Rightarrow> Some v | _ \<Rightarrow> None)
      else None)"
  by (simp add: getAll_map glob_prefix_star [OF assms])


text \<open>
  C8. \<^verbatim>\<open>getAll\<close> of the cache named "post" returns the entry that the cache named
  "postCount" wrote under its key "k": the pattern \<^verbatim>\<open>cache:post*\<close> matches the key
  \<^verbatim>\<open>cache:postCount:k\<close> of the other namespace.
\<close>

theorem getAll_returns_entry_of_longer_namespace:
  "fst (getAll (Cache ''post'' 60) renew
          (cache_set (Cache ''postCount'' 60) (Some ''k'') v emptyRedis))
       (prefixedKey (Cache ''postCount'' 60) (Some ''k'')) = Some v
   \<and> prefixedKey (Cache ''postCount'' 60) (Some ''k'') = ''cache:postCount:k''"
  by (simp add: getAll_def Cache_def cache_set_def prefixedKey_def emptyRedis_def redis_set_def
      put_def redis_keys_def lookup_def expired_def redis_mgetBuffer_def Let_def)


section \<open>Loops: reasoning by invariant\<close>

text \<open>
  When a loop returns, its final state satisfies \<open>Q\<close> if \<open>K\<close> holds at the start and is
  kept by every round that goes on, and \<open>Q\<close> holds wherever the loop can be left: after a
  \<^verbatim>\<open>break\<close>, and when the condition fails.
\<close>

lemma whileLoop_rule:
  fixes cond :: "'s \<Rightarrow> bool" and body :: "'s \<Rightarrow> ('e, 's) step option"
  assumes run: "whileLoop cond body s = Some (Inr t)"
    and init: "K s"
    and continue: "\<And>a b. K a \<Longrightarrow> cond a \<Longrightarrow> body a = Some (Continue b) \<Longrightarrow> K b"
    and break: "\<And>a b. K a \<Longrightarrow> cond a \<Longrightarrow> body a = Some (Break b) \<Longrightarrow> Q b"
    and exit: "\<And>a. K a \<Longrightarrow> \<not> cond a \<Longrightarrow> Q a"
  shows "Q t"
proof -
  define P where "P = (\<lambda>c b a (r :: 'e + 's). c = cond \<longrightarrow> b = body \<longrightarrow> K a \<longrightarrow> (\<forall>t. r = Inr t \<longrightarrow> Q t))"
  have "P cond body s (Inr t)"
  proof (rule whileLoop.raw_induct [where P = P, OF _ run])
    fix loop :: "('s \<Rightarrow> bool) \<Rightarrow> ('s \<Rightarrow> ('e, 's) step option) \<Rightarrow> 's \<Rightarrow> ('e + 's) option"
      and c b a r
    assume IH: "\<And>c b a r. loop c b a = Some r \<Longrightarrow> P c b a r"
      and eq: "(if c a
          then case b a of None \<Rightarrow> None | Some (Throw e) \<Rightarrow> Some (Inl e)
               | Some (Break s') \<Rightarrow> Some (Inr s') | Some (Continue s') \<Rightarrow> loop c b s'
          else Some (Inr a)) = Some r"
    show "P c b a r"
      unfolding P_def
    proof (intro impI allI)
      fix t
      assume c: "c = cond" and b: "b = body" and k: "K a" and r: "r = Inr t"
      show "Q t"
      proof (cases "cond a")
        case False
        with eq c r have "t = a" by simp
        with exit [OF k False] show ?thesis by simp
      next
        case True
        show ?thesis
        proof (cases "body a")
          case None
          with eq True c b show ?thesis by simp
        next
          case (Some st)
          show ?thesis
          proof (cases st)
            case (Throw e)
            with eq True c b Some r show ?thesis by simp
          next
            case (Break s')
            with eq True c b Some r have "t = s'" by simp
            with break [OF k True] Some Break show ?thesis by simp
          next
            case (Continue s')
            with eq True c b Some have "loop cond body s' = Some r" by simp
            from IH [OF this] continue [OF k True] Some Continue r show ?thesis
              by (simp add: P_def)
          qed
        qed
      qed
    qed
  qed
  with init show ?thesis by (simp add: P_def)
qed

text \<open>
  The same for the states of a run, returning or not; and the state a loop returns is the
  last of the states of some number of rounds.
\<close>

lemma loopStates_invariant:
  assumes "K s"
    and "\<And>a b. K a \<Longrightarrow> cond a \<Longrightarrow> body a = Some (Continue b) \<or> body a = Some (Break b) \<Longrightarrow> K b"
  shows "\<forall>t \<in> set (loopStates n cond body s). K t"
  using assms(1)
proof (induction n arbitrary: s)
  case 0
  then show ?case by simp
next
  case (Suc n)
  show ?case
  proof (cases "cond s")
    case False
    with Suc.prems show ?thesis by simp
  next
    case True
    show ?thesis
    proof (cases "body s")
      case None
      with True Suc.prems show ?thesis by simp
    next
      case (Some r)
      show ?thesis
      proof (cases r)
        case (Throw e)
        with Some True Suc.prems show ?thesis by simp
      next
        case (Break b)
        with Some True Suc.prems assms(2) [of s b] show ?thesis by simp
      next
        case (Continue b)
        with Some True Suc.prems assms(2) [of s b] have "K b" by simp
        from Suc.IH [OF this] Continue Some True Suc.prems show ?thesis by simp
      qed
    qed
  qed
qed

lemma loopStates_nonempty: "loopStates n cond body s \<noteq> []"
  by (cases n) simp_all

lemma whileLoop_last_state:
  fixes cond :: "'s \<Rightarrow> bool" and body :: "'s \<Rightarrow> ('e, 's) step option"
  assumes run: "whileLoop cond body s = Some (Inr t)"
  shows "\<exists>n. t = last (loopStates n cond body s)"
proof -
  define P where "P = (\<lambda>c b a (r :: 'e + 's). c = cond \<longrightarrow> b = body \<longrightarrow>
      (\<forall>t. r = Inr t \<longrightarrow> (\<exists>n. t = last (loopStates n cond body a))))"
  have "P cond body s (Inr t)"
  proof (rule whileLoop.raw_induct [where P = P, OF _ run])
    fix loop :: "('s \<Rightarrow> bool) \<Rightarrow> ('s \<Rightarrow> ('e, 's) step option) \<Rightarrow> 's \<Rightarrow> ('e + 's) option"
      and c b a r
    assume IH: "\<And>c b a r. loop c b a = Some r \<Longrightarrow> P c b a r"
      and eq: "(if c a
          then case b a of None \<Rightarrow> None | Some (Throw e) \<Rightarrow> Some (Inl e)
               | Some (Break s') \<Rightarrow> Some (Inr s') | Some (Continue s') \<Rightarrow> loop c b s'
          else Some (Inr a)) = Some r"
    show "P c b a r"
      unfolding P_def
    proof (intro impI allI)
      fix t
      assume c: "c = cond" and b: "b = body" and r: "r = Inr t"
      show "\<exists>n. t = last (loopStates n cond body a)"
      proof (cases "cond a")
        case False
        with eq c r have "t = last (loopStates 0 cond body a)" by simp
        then show ?thesis ..
      next
        case True
        show ?thesis
        proof (cases "body a")
          case None
          with eq True c b show ?thesis by simp
        next
          case (Some st)
          show ?thesis
          proof (cases st)
            case (Throw e)
            with eq True c b Some r show ?thesis by simp
          next
            case (Break s')
            with eq True c b Some r have "t = last (loopStates (Suc 0) cond body a)" by simp
            then show ?thesis ..
          next
            case (Continue s')
            with eq True c b Some have "loop cond body s' = Some r" by simp
            from IH [OF this] r obtain n where "t = last (loopStates n cond body s')"
              by (auto simp: P_def)
            with True Some Continue have "t = last (loopStates (Suc n) cond body a)"
              by (simp add: loopStates_nonempty)
            then show ?thesis ..
          qed
        qed
      qed
    qed
  qed
  then show ?thesis by (simp add: P_def)
qed

section \<open>The scan over the partitions\<close>


lemma scanTarget_frame:
  assumes "scanTarget kind ps u st = (r, st1)"
  shows "found st1 = found st \<and> scannedPartitions st1 = scannedPartitions st
         \<and> cursor st1 = cursor st \<and> issued st1 = issued st"
  using assms
  by (auto simp: scanTarget_def Let_def split: option.splits if_splits)

lemma scanIteration_effect:
  assumes "scanIteration execute zone createdAtOf kind ps filt u ql query since st = Continue b
           \<or> scanIteration execute zone createdAtOf kind ps filt u ql query since st = Break b"
  shows "(scannedPartitions b = scannedPartitions st \<or> scannedPartitions b = scannedPartitions st + 1)
         \<and> (issued b = issued st
             \<or> (\<exists>firstParams. issued b = issued st @
                  [firstParams @ (case since of None \<Rightarrow> [] | Some s \<Rightarrow> [PDate s])
                     @ [PNumber (fetchLimitOf kind ps ql)]]))"
proof (cases "scanTarget kind ps u st")
  case (Pair r st1)
  note fr = scanTarget_frame [OF Pair]
  show ?thesis
  proof (cases r)
    case None
    with assms Pair fr show ?thesis by (simp add: scanIteration_def)
  next
    case (Some firstParams)
    with assms Pair fr show ?thesis
      by (auto simp: scanIteration_def Let_def split: option.splits if_splits)
  qed
qed

lemma preparePaginationQuery_parts:
  "preparePaginationQuery prepared getTimestamp now kind ps =
     (paginationQueryText prepared getTimestamp kind ps,
      resolvedUntil getTimestamp now ps,
      resolvedSince getTimestamp ps)"
  by (auto simp: preparePaginationQuery_def resolvedUntil_def resolvedSince_def untilBase_def
      paginationQueryText_def lowerBoundClause_def Let_def split: option.splits)

lemma exec_with_client:
  "execPaginationQuery (Some execute) cfg zone createdAtOf prepared getTimestamp now kind ps filt u arg =
     (case checkFeedParameters kind ps u of
        Some e \<Rightarrow> Some (Inl e)
      | None \<Rightarrow>
          whileLoop (scanCond kind ps (maxPartitionsOf cfg arg))
            (\<lambda>st. Some (scanIteration execute zone createdAtOf kind ps filt u (queryLimitOf cfg)
                 (paginationQueryText prepared getTimestamp kind ps)
                 (resolvedSince getTimestamp ps) st))
            (initialScan (resolvedUntil getTimestamp now ps) ps))"
proof -
  have c: "scanCond kind ps (maxPartitionsOf cfg arg)
      = (\<lambda>st :: 'a scan. int (length (found st)) < foundLimitOf kind ps
              \<and> scannedPartitions st < maxPartitionsOf cfg arg)"
    by (rule ext) (simp add: scanCond_def)
  show ?thesis
    unfolding execPaginationQuery_def preparePaginationQuery_parts c
    by (simp split: option.splits)
qed

lemma scan_invariant:
  assumes run: "execPaginationQuery (Some execute) cfg zone createdAtOf prepared getTimestamp now
                  kind ps filt u arg = Some (Inr res)"
    and init: "K (initialScan (resolvedUntil getTimestamp now ps) ps)"
    and continue: "\<And>a b query since. K a \<Longrightarrow> scanCond kind ps (maxPartitionsOf cfg arg) a \<Longrightarrow>
        scanIteration execute zone createdAtOf kind ps filt u (queryLimitOf cfg) query since a = Continue b
        \<Longrightarrow> K b"
    and break: "\<And>a b query since. K a \<Longrightarrow> scanCond kind ps (maxPartitionsOf cfg arg) a \<Longrightarrow>
        scanIteration execute zone createdAtOf kind ps filt u (queryLimitOf cfg) query since a = Break b
        \<Longrightarrow> Q b"
    and exit: "\<And>a. K a \<Longrightarrow> \<not> scanCond kind ps (maxPartitionsOf cfg arg) a \<Longrightarrow> Q a"
  shows "Q res \<and> checkFeedParameters kind ps u = None"
proof -
  from run have ok: "checkFeedParameters kind ps u = None"
    unfolding exec_with_client by (cases "checkFeedParameters kind ps u") simp_all
  with run have loop:
    "whileLoop (scanCond kind ps (maxPartitionsOf cfg arg))
       (\<lambda>st. Some (scanIteration execute zone createdAtOf kind ps filt u (queryLimitOf cfg)
            (paginationQueryText prepared getTimestamp kind ps)
            (resolvedSince getTimestamp ps) st))
       (initialScan (resolvedUntil getTimestamp now ps) ps) = Some (Inr res)"
    unfolding exec_with_client by simp
  have "Q res"
  proof (rule whileLoop_rule [OF loop, where K = K and Q = Q])
    show "K (initialScan (resolvedUntil getTimestamp now ps) ps)" by (rule init)
  next
    fix a b :: "'a scan"
    assume "K a" "scanCond kind ps (maxPartitionsOf cfg arg) a"
      and "Some (scanIteration execute zone createdAtOf kind ps filt u (queryLimitOf cfg)
            (paginationQueryText prepared getTimestamp kind ps)
            (resolvedSince getTimestamp ps) a) = Some (Continue b)"
    then show "K b" using continue by blast
  next
    fix a b :: "'a scan"
    assume "K a" "scanCond kind ps (maxPartitionsOf cfg arg) a"
      and "Some (scanIteration execute zone createdAtOf kind ps filt u (queryLimitOf cfg)
            (paginationQueryText prepared getTimestamp kind ps)
            (resolvedSince getTimestamp ps) a) = Some (Break b)"
    then show "Q b" using break by blast
  next
    fix a :: "'a scan"
    assume "K a" "\<not> scanCond kind ps (maxPartitionsOf cfg arg) a"
    then show "Q a" by (rule exit)
  qed
  with ok show ?thesis by simp
qed

lemma exec_without_client:
  "execPaginationQuery None cfg zone createdAtOf prepared getTimestamp now kind ps filt u arg
     = Some (Inr (initialScan (newDate (Some now)) ps))"
  by (simp add: execPaginationQuery_def)


lemma scan_fetch_limit:
  assumes "execPaginationQuery scyllaClient cfg zone createdAtOf prepared getTimestamp now
             kind ps filt u arg = Some (Inr res)"
  shows "\<forall>c \<in> set (issued res). c \<noteq> [] \<and> last c = PNumber (fetchLimitOf kind ps (queryLimitOf cfg))"
proof (cases scyllaClient)
  case None
  with assms have "res = initialScan (newDate (Some now)) ps" by (simp add: exec_without_client)
  then show ?thesis by (simp add: initialScan_def)
next
  case (Some execute)
  let ?K = "\<lambda>st :: 'a scan. \<forall>c \<in> set (issued st).
      c \<noteq> [] \<and> last c = PNumber (fetchLimitOf kind ps (queryLimitOf cfg))"
  have step: "?K b"
    if "?K a"
      and "scanIteration execute zone createdAtOf kind ps filt u (queryLimitOf cfg) query since a = Continue b
           \<or> scanIteration execute zone createdAtOf kind ps filt u (queryLimitOf cfg) query since a = Break b"
    for a b :: "'a scan" and query since
  proof -
    from scanIteration_effect [OF that(2)]
    have "issued b = issued a
          \<or> (\<exists>firstParams. issued b = issued a @
                  [firstParams @ (case since of None \<Rightarrow> [] | Some s \<Rightarrow> [PDate s])
                     @ [PNumber (fetchLimitOf kind ps (queryLimitOf cfg))]])"
      by blast
    with that(1) show ?thesis by auto
  qed
  from assms Some
  have run: "execPaginationQuery (Some execute) cfg zone createdAtOf prepared getTimestamp now
                  kind ps filt u arg = Some (Inr res)"
    by simp
  have "?K res \<and> checkFeedParameters kind ps u = None"
  proof (rule scan_invariant [OF run, where K = ?K and Q = ?K])
    show "?K (initialScan (resolvedUntil getTimestamp now ps) ps)"
      by (simp add: initialScan_def)
  qed (use step in blast)+
  then show ?thesis by simp
qed

lemma scanStates_with_parts:
  "scanStates n execute cfg zone createdAtOf prepared getTimestamp now kind ps filt u arg =
     (case checkFeedParameters kind ps u of
        Some e \<Rightarrow> []
      | None \<Rightarrow>
          loopStates n (scanCond kind ps (maxPartitionsOf cfg arg))
            (\<lambda>st. Some (scanIteration execute zone createdAtOf kind ps filt u (queryLimitOf cfg)
                 (paginationQueryText prepared getTimestamp kind ps)
                 (resolvedSince getTimestamp ps) st))
            (initialScan (resolvedUntil getTimestamp now ps) ps))"
proof -
  have c: "scanCond kind ps (maxPartitionsOf cfg arg)
      = (\<lambda>st :: 'a scan. int (length (found st)) < foundLimitOf kind ps
              \<and> scannedPartitions st < maxPartitionsOf cfg arg)"
    by (rule ext) (simp add: scanCond_def)
  show ?thesis
    unfolding scanStates_def preparePaginationQuery_parts c
    by (simp split: option.splits)
qed

lemma exec_result_in_scanStates:
  assumes "execPaginationQuery (Some execute) cfg zone createdAtOf prepared getTimestamp now
             kind ps filt u arg = Some (Inr res)"
  shows "\<exists>n. res = last (scanStates n execute cfg zone createdAtOf prepared getTimestamp now
             kind ps filt u arg)"
proof -
  from assms have ok: "checkFeedParameters kind ps u = None"
    unfolding exec_with_client by (cases "checkFeedParameters kind ps u") simp_all
  with assms have loop:
    "whileLoop (scanCond kind ps (maxPartitionsOf cfg arg))
       (\<lambda>st. Some (scanIteration execute zone createdAtOf kind ps filt u (queryLimitOf cfg)
            (paginationQueryText prepared getTimestamp kind ps)
            (resolvedSince getTimestamp ps) st))
       (initialScan (resolvedUntil getTimestamp now ps) ps) = Some (Inr res)"
    unfolding exec_with_client by simp
  from whileLoop_last_state [OF loop] ok show ?thesis
    by (simp add: scanStates_with_parts)
qed

lemma scanStates_invariant:
  assumes init: "K (initialScan (resolvedUntil getTimestamp now ps) ps)"
    and step: "\<And>a b query since. K a \<Longrightarrow> scanCond kind ps (maxPartitionsOf cfg arg) a \<Longrightarrow>
        scanIteration execute zone createdAtOf kind ps filt u (queryLimitOf cfg) query since a = Continue b
        \<or> scanIteration execute zone createdAtOf kind ps filt u (queryLimitOf cfg) query since a = Break b
        \<Longrightarrow> K b"
  shows "\<forall>st \<in> set (scanStates n execute cfg zone createdAtOf prepared getTimestamp now
             kind ps filt u arg). K st"
proof (cases "checkFeedParameters kind ps u")
  case (Some e)
  then show ?thesis by (simp add: scanStates_with_parts)
next
  case None
  have "\<forall>st \<in> set (loopStates n (scanCond kind ps (maxPartitionsOf cfg arg))
            (\<lambda>st. Some (scanIteration execute zone createdAtOf kind ps filt u (queryLimitOf cfg)
                 (paginationQueryText prepared getTimestamp kind ps)
                 (resolvedSince getTimestamp ps) st))
            (initialScan (resolvedUntil getTimestamp now ps) ps)). K st"
  proof (rule loopStates_invariant [where K = K])
    show "K (initialScan (resolvedUntil getTimestamp now ps) ps)" by (rule init)
  next
    fix a b :: "'a scan"
    assume "K a" "scanCond kind ps (maxPartitionsOf cfg arg) a"
      and "Some (scanIteration execute zone createdAtOf kind ps filt u (queryLimitOf cfg)
            (paginationQueryText prepared getTimestamp kind ps)
            (resolvedSince getTimestamp ps) a) = Some (Continue b)
         \<or> Some (scanIteration execute zone createdAtOf kind ps filt u (queryLimitOf cfg)
            (paginationQueryText prepared getTimestamp kind ps)
            (resolvedSince getTimestamp ps) a) = Some (Break b)"
    then show "K b" using step by simp
  qed
  with None show ?thesis by (simp add: scanStates_with_parts)
qed


lemma scanStates_fetch_limit:
  "\<forall>st \<in> set (scanStates n execute cfg zone createdAtOf prepared getTimestamp now
             kind ps filt u arg).
     \<forall>c \<in> set (issued st). c \<noteq> [] \<and> last c = PNumber (fetchLimitOf kind ps (queryLimitOf cfg))"
proof -
  let ?K = "\<lambda>st :: 'a scan. \<forall>c \<in> set (issued st).
      c \<noteq> [] \<and> last c = PNumber (fetchLimitOf kind ps (queryLimitOf cfg))"
  have step: "?K b"
    if "?K a"
      and "scanIteration execute zone createdAtOf kind ps filt u (queryLimitOf cfg) query since a = Continue b
           \<or> scanIteration execute zone createdAtOf kind ps filt u (queryLimitOf cfg) query since a = Break b"
    for a b :: "'a scan" and query since
  proof -
    from scanIteration_effect [OF that(2)]
    have "issued b = issued a
          \<or> (\<exists>firstParams. issued b = issued a @
                  [firstParams @ (case since of None \<Rightarrow> [] | Some s \<Rightarrow> [PDate s])
                     @ [PNumber (fetchLimitOf kind ps (queryLimitOf cfg))]])"
      by blast
    with that(1) show ?thesis by auto
  qed
  show ?thesis
  proof (rule scanStates_invariant [where K = ?K])
    show "?K (initialScan (resolvedUntil getTimestamp now ps) ps)"
      by (simp add: initialScan_def)
  qed (use step in blast)
qed





lemma scanTarget_list:
  "scanTarget ListFeed ps u st =
     (case remainingUserIds st of
        None \<Rightarrow> (Some [PDate (cursor st), PDate (cursor st)], st)
      | Some ids \<Rightarrow>
          if ids = [] then (None, st)
          else if last ids = [] then (None, st \<lparr> remainingUserIds := Some (butlast ids) \<rparr>)
          else (Some [PString (last ids), PDate (cursor st)],
                st \<lparr> remainingUserIds := Some (butlast ids) \<rparr>))"
  by (simp add: scanTarget_def Let_def split: option.splits)

lemma list_round_effect:
  assumes rem: "remainingUserIds st = Some rem"
    and it: "scanIteration execute zone createdAtOf ListFeed ps filt u ql query since st = r"
  shows "(rem = [] \<longrightarrow> r = Break st)
       \<and> (rem \<noteq> [] \<and> last rem = [] \<longrightarrow> r = Break (st \<lparr> remainingUserIds := Some (butlast rem) \<rparr>))
       \<and> (rem \<noteq> [] \<and> last rem \<noteq> [] \<longrightarrow>
            r = Throw QueryError
            \<or> (\<exists>b. (r = Continue b \<or> r = Break b)
                  \<and> remainingUserIds b = Some (butlast rem)
                  \<and> (\<exists>rest. issued b = issued st @ [PString (last rem) # rest])))"
  using assms
  by (auto simp: scanIteration_def scanTarget_list Let_def split: option.splits if_splits)

lemma pop_facts:
  assumes "n < length ids"
  shows "take (length ids - n) ids \<noteq> []"
    and "last (take (length ids - n) ids) = rev ids ! n"
    and "butlast (take (length ids - n) ids) = take (length ids - Suc n) ids"
    and "take (Suc n) (rev ids) = take n (rev ids) @ [rev ids ! n]"
proof -
  from assms show "take (length ids - n) ids \<noteq> []" by auto
  from assms have ne: "take (length ids - n) ids \<noteq> []" by auto
  have l: "length (take (length ids - n) ids) = length ids - n" by simp
  have "last (take (length ids - n) ids) = take (length ids - n) ids ! (length ids - n - 1)"
    using last_conv_nth [OF ne] unfolding l .
  also from assms have "\<dots> = ids ! (length ids - n - 1)"
    by (intro nth_take) arith
  also from assms have "\<dots> = rev ids ! n" by (simp add: rev_nth)
  finally show "last (take (length ids - n) ids) = rev ids ! n" .
  from assms show "butlast (take (length ids - n) ids) = take (length ids - Suc n) ids"
    by (simp add: butlast_take)
  from assms show "take (Suc n) (rev ids) = take n (rev ids) @ [rev ids ! n]"
    by (simp add: take_Suc_conv_app_nth)
qed

lemma list_scan_consumes:
  assumes run: "execPaginationQuery (Some execute) cfg zone createdAtOf prepared getTimestamp now
                  ListFeed ps filt u arg = Some (Inr res)"
    and ids: "userIds ps = Some ids" and lim: "0 < limit ps" and mp: "0 < maxPartitionsOf cfg arg"
  shows "\<exists>n. 1 \<le> n \<and> n \<le> length ids
           \<and> remainingUserIds res = Some (take (length ids - n) ids)
           \<and> (length (issued res) = n \<or> length (issued res) + 1 = n)
           \<and> map hd (issued res) = map PString (take (length (issued res)) (rev ids))"
proof -
  let ?K = "\<lambda>st :: 'a scan. \<exists>n. n \<le> length ids
           \<and> remainingUserIds st = Some (take (length ids - n) ids)
           \<and> length (issued st) = n
           \<and> map hd (issued st) = map PString (take n (rev ids))
           \<and> (n = 0 \<longrightarrow> found st = [] \<and> scannedPartitions st = 0)"
  let ?Q = "\<lambda>st :: 'a scan. \<exists>n. 1 \<le> n \<and> n \<le> length ids
           \<and> remainingUserIds st = Some (take (length ids - n) ids)
           \<and> (length (issued st) = n \<or> length (issued st) + 1 = n)
           \<and> map hd (issued st) = map PString (take (length (issued st)) (rev ids))"
  from run have ok: "checkFeedParameters ListFeed ps u = None"
    unfolding exec_with_client by (cases "checkFeedParameters ListFeed ps u") simp_all
  with ids have nonempty: "ids \<noteq> []"
    by (auto simp: checkFeedParameters_def split: if_splits)
  then have positive: "1 \<le> length ids"
    by (cases ids) simp_all
  have popped: "?Q b"
    if k: "?K a"
      and it: "scanIteration execute zone createdAtOf ListFeed ps filt u (queryLimitOf cfg) query since a = Continue b
               \<or> scanIteration execute zone createdAtOf ListFeed ps filt u (queryLimitOf cfg) query since a = Break b"
    for a b :: "'a scan" and query since
  proof -
    from k obtain n where n: "n \<le> length ids"
      and rem: "remainingUserIds a = Some (take (length ids - n) ids)"
      and len: "length (issued a) = n"
      and tg: "map hd (issued a) = map PString (take n (rev ids))"
      by blast
    let ?rem = "take (length ids - n) ids"
    note eff = list_round_effect [OF rem refl, of execute zone createdAtOf ps filt u "queryLimitOf cfg" query since]
    show ?thesis
    proof (cases "?rem = []")
      case True
      with eff it have "b = a" by auto
      moreover from True n have "n = length ids" by auto
      ultimately show ?thesis using rem len tg positive
        by (intro exI [of _ n]) auto
    next
      case False
      with n have lt: "n < length ids" by auto
      note pf = pop_facts [OF lt]
      show ?thesis
      proof (cases "last ?rem = []")
        case True
        with eff it False have "b = a \<lparr> remainingUserIds := Some (butlast ?rem) \<rparr>" by auto
        then show ?thesis using lt len tg pf(3)
          by (intro exI [of _ "Suc n"]) auto
      next
        case last_nonempty: False
        with eff it False obtain rest where
          "remainingUserIds b = Some (butlast ?rem)"
          and "issued b = issued a @ [PString (last ?rem) # rest]"
          by auto
        then show ?thesis using lt len tg pf
          by (intro exI [of _ "Suc n"]) auto
      qed
    qed
  qed
  have kept: "?K b"
    if k: "?K a"
      and it: "scanIteration execute zone createdAtOf ListFeed ps filt u (queryLimitOf cfg) query since a = Continue b"
    for a b :: "'a scan" and query since
  proof -
    from k obtain n where n: "n \<le> length ids"
      and rem: "remainingUserIds a = Some (take (length ids - n) ids)"
      and len: "length (issued a) = n"
      and tg: "map hd (issued a) = map PString (take n (rev ids))"
      by blast
    let ?rem = "take (length ids - n) ids"
    note eff = list_round_effect [OF rem refl, of execute zone createdAtOf ps filt u "queryLimitOf cfg" query since]
    from eff it have ne: "?rem \<noteq> []" and nl: "last ?rem \<noteq> []" by auto
    with n have lt: "n < length ids" by auto
    note pf = pop_facts [OF lt]
    from eff it ne nl obtain rest where
      "remainingUserIds b = Some (butlast ?rem)"
      and "issued b = issued a @ [PString (last ?rem) # rest]"
      by auto
    then show ?thesis using lt len tg pf
      by (intro exI [of _ "Suc n"]) auto
  qed
  have left: "?Q a" if k: "?K a" and c: "\<not> scanCond ListFeed ps (maxPartitionsOf cfg arg) a"
    for a :: "'a scan"
  proof -
    from k obtain n where n: "n \<le> length ids"
      and rem: "remainingUserIds a = Some (take (length ids - n) ids)"
      and len: "length (issued a) = n"
      and tg: "map hd (issued a) = map PString (take n (rev ids))"
      and z: "n = 0 \<longrightarrow> found a = [] \<and> scannedPartitions a = 0"
      by blast
    have "n \<noteq> 0"
    proof
      assume "n = 0"
      with z have "found a = []" "scannedPartitions a = 0" by simp_all
      moreover have "0 < limit ps * int (length ids)" using lim nonempty by simp
      ultimately have "scanCond ListFeed ps (maxPartitionsOf cfg arg) a"
        using mp ids by (simp add: scanCond_def foundLimitOf_def)
      with c show False by simp
    qed
    then show ?thesis using n rem len tg by (intro exI [of _ n]) auto
  qed
  have "?Q res \<and> checkFeedParameters ListFeed ps u = None"
  proof (rule scan_invariant [OF run, where K = ?K and Q = ?Q])
    show "?K (initialScan (resolvedUntil getTimestamp now ps) ps)"
      using ids by (intro exI [of _ 0]) (simp add: initialScan_def)
  next
    fix a b :: "'a scan" and query since
    assume "?K a"
      and "scanIteration execute zone createdAtOf ListFeed ps filt u (queryLimitOf cfg) query since a = Continue b"
    then show "?K b" by (rule kept)
  next
    fix a b :: "'a scan" and query since
    assume "?K a"
      and "scanIteration execute zone createdAtOf ListFeed ps filt u (queryLimitOf cfg) query since a = Break b"
    then show "?Q b" using popped by blast
  next
    fix a :: "'a scan"
    assume "?K a" "\<not> scanCond ListFeed ps (maxPartitionsOf cfg arg) a"
    then show "?Q a" by (rule left)
  qed
  then show ?thesis by blast
qed


section \<open>The pagination bounds\<close>

text \<open>
  C6, as amended. For every pagination parameter set, \<^verbatim>\<open>preparePaginationQuery\<close> resolves
  the until bound from the time decoded from \<^verbatim>\<open>untilId\<close> when that is given, and from the
  clock otherwise, replaced by the explicit \<^verbatim>\<open>untilDate\<close> when that is given and earlier;
  it resolves the since bound as the later of the time decoded from \<^verbatim>\<open>sinceId\<close> and the
  explicit \<^verbatim>\<open>sinceDate\<close>, absent when neither is given; an id that is the empty string
  and a date that is 0 count as not given. Each bound is a date: a time out of the range
  of a date, or \<^verbatim>\<open>NaN\<close>, makes the bound an Invalid Date, and a bound that was decoded
  invalid is kept, whatever the explicit date, since nothing is earlier or later than an
  Invalid Date. The query is the statement of the feed kind, the upper-bound predicate,
  the lower-bound predicate exactly when a since bound was resolved, valid or not, and
  the row-limit clause.
\<close>

theorem preparePaginationQuery_resolves_bounds:
  "preparePaginationQuery prepared getTimestamp now kind ps =
     (prepared (templateOf kind) @ '' AND \"createdAt\" < ?''
        @ lowerBoundClause (resolvedSince getTimestamp ps) @ '' LIMIT ?'',
      resolvedUntil getTimestamp now ps,
      resolvedSince getTimestamp ps)
   \<and> (lowerBoundClause (resolvedSince getTimestamp ps) = [] \<longleftrightarrow> resolvedSince getTimestamp ps = None)
   \<and> (resolvedSince getTimestamp ps = None
        \<longleftrightarrow> givenString (sinceId ps) = None \<and> givenNumber (sinceDate ps) = None)
   \<and> untilBase getTimestamp now ps
        = (case givenString (untilId ps) of None \<Rightarrow> Some now | Some i \<Rightarrow> getTimestamp i)
   \<and> (untilBase getTimestamp now ps = Some b \<and> inDateRange b \<and> givenNumber (untilDate ps) = None
        \<longrightarrow> resolvedUntil getTimestamp now ps = ValidDate b)
   \<and> (untilBase getTimestamp now ps = Some b \<and> inDateRange b
        \<and> givenNumber (untilDate ps) = Some d \<and> inDateRange d
        \<longrightarrow> resolvedUntil getTimestamp now ps = ValidDate (min b d))
   \<and> (untilBase getTimestamp now ps = Some b \<and> inDateRange b
        \<and> givenNumber (untilDate ps) = Some d \<and> \<not> inDateRange d
        \<longrightarrow> resolvedUntil getTimestamp now ps = (if d < b then InvalidDate else ValidDate b))
   \<and> (newDate (untilBase getTimestamp now ps) = InvalidDate
        \<longrightarrow> resolvedUntil getTimestamp now ps = InvalidDate)
   \<and> (givenString (sinceId ps) = None \<and> givenNumber (sinceDate ps) = Some e
        \<longrightarrow> resolvedSince getTimestamp ps
              = Some (if inDateRange e then ValidDate e else InvalidDate))
   \<and> (givenString (sinceId ps) = Some i \<and> givenNumber (sinceDate ps) = None
        \<longrightarrow> resolvedSince getTimestamp ps = Some (newDate (getTimestamp i)))
   \<and> (givenString (sinceId ps) = Some i \<and> getTimestamp i = Some t \<and> inDateRange t
        \<and> givenNumber (sinceDate ps) = Some e \<and> inDateRange e
        \<longrightarrow> resolvedSince getTimestamp ps = Some (ValidDate (max t e)))
   \<and> (givenString (sinceId ps) = Some i \<and> getTimestamp i = Some t \<and> inDateRange t
        \<and> givenNumber (sinceDate ps) = Some e \<and> \<not> inDateRange e
        \<longrightarrow> resolvedSince getTimestamp ps = Some (if t < e then InvalidDate else ValidDate t))
   \<and> (givenString (sinceId ps) = Some i \<and> newDate (getTimestamp i) = InvalidDate
        \<and> givenNumber (sinceDate ps) = Some e
        \<longrightarrow> resolvedSince getTimestamp ps = Some InvalidDate)"
proof -
  have parts: "preparePaginationQuery prepared getTimestamp now kind ps =
     (prepared (templateOf kind) @ '' AND \"createdAt\" < ?''
        @ lowerBoundClause (resolvedSince getTimestamp ps) @ '' LIMIT ?'',
      resolvedUntil getTimestamp now ps,
      resolvedSince getTimestamp ps)"
    by (simp add: preparePaginationQuery_parts paginationQueryText_def)
  have clause: "lowerBoundClause (resolvedSince getTimestamp ps) = [] \<longleftrightarrow> resolvedSince getTimestamp ps = None"
    by (simp add: lowerBoundClause_def split: option.splits)
  have absent: "resolvedSince getTimestamp ps = None
        \<longleftrightarrow> givenString (sinceId ps) = None \<and> givenNumber (sinceDate ps) = None"
    by (simp add: resolvedSince_def split: option.splits)
  have base: "untilBase getTimestamp now ps
        = (case givenString (untilId ps) of None \<Rightarrow> Some now | Some i \<Rightarrow> getTimestamp i)"
    by (simp add: untilBase_def)
  have u1: "resolvedUntil getTimestamp now ps = ValidDate b"
    if "untilBase getTimestamp now ps = Some b" "inDateRange b" "givenNumber (untilDate ps) = None"
    using that by (simp add: resolvedUntil_def newDate_def)
  have u2: "resolvedUntil getTimestamp now ps = ValidDate (min b d)"
    if "untilBase getTimestamp now ps = Some b" "inDateRange b"
      "givenNumber (untilDate ps) = Some d" "inDateRange d"
    using that by (simp add: resolvedUntil_def newDate_def getTime_def numberLess_def min_def)
  have u3: "resolvedUntil getTimestamp now ps = (if d < b then InvalidDate else ValidDate b)"
    if "untilBase getTimestamp now ps = Some b" "inDateRange b"
      "givenNumber (untilDate ps) = Some d" "\<not> inDateRange d"
    using that by (simp add: resolvedUntil_def newDate_def getTime_def numberLess_def)
  have u4: "resolvedUntil getTimestamp now ps = InvalidDate"
    if "newDate (untilBase getTimestamp now ps) = InvalidDate"
    using that by (simp add: resolvedUntil_def getTime_def numberLess_def split: option.splits)
  have s1: "resolvedSince getTimestamp ps = Some (if inDateRange e then ValidDate e else InvalidDate)"
    if "givenString (sinceId ps) = None" "givenNumber (sinceDate ps) = Some e"
    using that by (simp add: resolvedSince_def newDate_def)
  have s2: "resolvedSince getTimestamp ps = Some (newDate (getTimestamp i))"
    if "givenString (sinceId ps) = Some i" "givenNumber (sinceDate ps) = None"
    using that by (simp add: resolvedSince_def)
  have s3: "resolvedSince getTimestamp ps = Some (ValidDate (max t e))"
    if "givenString (sinceId ps) = Some i" "getTimestamp i = Some t" "inDateRange t"
      "givenNumber (sinceDate ps) = Some e" "inDateRange e"
    using that by (simp add: resolvedSince_def newDate_def getTime_def numberLess_def max_def)
  have s4: "resolvedSince getTimestamp ps = Some (if t < e then InvalidDate else ValidDate t)"
    if "givenString (sinceId ps) = Some i" "getTimestamp i = Some t" "inDateRange t"
      "givenNumber (sinceDate ps) = Some e" "\<not> inDateRange e"
    using that by (simp add: resolvedSince_def newDate_def getTime_def numberLess_def)
  have s5: "resolvedSince getTimestamp ps = Some InvalidDate"
    if "givenString (sinceId ps) = Some i" "newDate (getTimestamp i) = InvalidDate"
      "givenNumber (sinceDate ps) = Some e"
    using that by (simp add: resolvedSince_def getTime_def numberLess_def)
  show ?thesis
  proof (intro conjI impI, goal_cases)
    case 1 show ?case by (rule parts)
  next
    case 2 show ?case by (rule clause)
  next
    case 3 show ?case by (rule absent)
  next
    case 4 show ?case by (rule base)
  next
    case 5 then show ?case by (elim conjE) (rule u1)
  next
    case 6 then show ?case by (elim conjE) (rule u2)
  next
    case 7 then show ?case by (elim conjE) (rule u3)
  next
    case 8 then show ?case by (rule u4)
  next
    case 9 then show ?case by (elim conjE) (rule s1)
  next
    case 10 then show ?case by (elim conjE) (rule s2)
  next
    case 11 then show ?case by (elim conjE) (rule s3)
  next
    case 12 then show ?case by (elim conjE) (rule s4)
  next
    case 13 then show ?case by (elim conjE) (rule s5)
  qed
qed

text \<open>
  The theorem on a request with the until date 500 and the since date 700, an until id and
  a since id that decode to 0 and to 600, and the clock at 1000: the until bound is the
  date of 0, the earlier of 0 and 500, and the since bound is the date of 700, the later
  of 600 and 700.
\<close>

theorem preparePaginationQuery_resolves_bounds_witness:
  "preparePaginationQuery noTemplates idTimestamp 1000 HomeFeed boundedRequest
     = (''SELECT AND \"createdAt\" < ? AND \"createdAt\" > ? LIMIT ?'',
        ValidDate 0, Some (ValidDate 700))
   \<and> untilBase idTimestamp 1000 boundedRequest = Some 0
   \<and> givenNumber (untilDate boundedRequest) = Some 500
   \<and> givenString (sinceId boundedRequest) = Some ''s'' \<and> idTimestamp ''s'' = Some 600
   \<and> givenNumber (sinceDate boundedRequest) = Some 700"
proof -
  have b: "untilBase idTimestamp 1000 boundedRequest = Some 0"
    and ud: "givenNumber (untilDate boundedRequest) = Some 500"
    and si: "givenString (sinceId boundedRequest) = Some ''s''"
    and st: "idTimestamp ''s'' = Some 600"
    and sd: "givenNumber (sinceDate boundedRequest) = Some 700"
    by (simp_all add: untilBase_def boundedRequest_def plainRequest_def givenString_def
        givenNumber_def idTimestamp_def)
  have r: "inDateRange 0" "inDateRange 500" "inDateRange 600" "inDateRange 700"
    by (simp_all add: inDateRange_def)
  note inst = preparePaginationQuery_resolves_bounds
    [where prepared = noTemplates and getTimestamp = idTimestamp and now = 1000
       and kind = HomeFeed and ps = boundedRequest and b = 0 and d = 500 and e = 700
       and i = "''s''" and t = 600]
  from inst b ud r have u: "resolvedUntil idTimestamp 1000 boundedRequest = ValidDate 0"
    by simp
  from inst si st sd r have s: "resolvedSince idTimestamp boundedRequest = Some (ValidDate 700)"
    by simp
  from inst u s
  have "preparePaginationQuery noTemplates idTimestamp 1000 HomeFeed boundedRequest
     = (''SELECT AND \"createdAt\" < ? AND \"createdAt\" > ? LIMIT ?'',
        ValidDate 0, Some (ValidDate 700))"
    by (simp add: noTemplates_def lowerBoundClause_def)
  with b ud si st sd show ?thesis by simp
qed

text \<open>
  C6 as stated fails for the explicit until date 0: it is given and earlier than the clock
  (1000), and the resolved until bound is the clock, since \<^verbatim>\<open>ps.untilDate && ...\<close> is falsy
  for 0. It fails for the explicit since date 8640000000000001 as well: the since bound
  is not that time but an Invalid Date.
\<close>

theorem preparePaginationQuery_zero_until_counterexample:
  "fst (snd (preparePaginationQuery noTemplates zeroTimestamp 1000 HomeFeed
        ((plainRequest 10) \<lparr> untilDate := Some 0 \<rparr>))) = ValidDate 1000
   \<and> untilDate ((plainRequest 10) \<lparr> untilDate := Some 0 \<rparr>) = Some 0
   \<and> (0 :: int) < 1000
   \<and> snd (snd (preparePaginationQuery noTemplates zeroTimestamp 1000 HomeFeed
        ((plainRequest 10) \<lparr> sinceDate := Some 8640000000000001 \<rparr>))) = Some InvalidDate"
  by (simp add: preparePaginationQuery_def plainRequest_def givenString_def givenNumber_def
      newDate_def inDateRange_def getTime_def numberLess_def)

section \<open>The scan loop: budget, fetch limit, consumed ids\<close>




text \<open>
  C7, as amended. In every round of the scan loop, whether the run returns or not, the
  last parameter of the range scan, its row limit, is the configured query limit (100 by
  default), whatever \<^verbatim>\<open>ps.limit\<close> is, for every feed kind but the list feed; for the list
  feed it is the smaller of \<^verbatim>\<open>ps.limit\<close> and the configured query limit.
\<close>

theorem scan_fetch_limit_by_kind:
  "(\<forall>st \<in> set (scanStates n execute cfg zone createdAtOf prepared getTimestamp now
                  kind ps filt forUserId arg).
      \<forall>c \<in> set (issued st). c \<noteq> [] \<and>
             last c = PNumber (if kind = ListFeed then min (limit ps) (queryLimitOf cfg)
                               else queryLimitOf cfg))
   \<and> (execPaginationQuery scyllaClient cfg zone createdAtOf prepared getTimestamp now
       kind ps filt forUserId arg = Some (Inr res)
      \<longrightarrow> (\<forall>c \<in> set (issued res). c \<noteq> [] \<and>
             last c = PNumber (if kind = ListFeed then min (limit ps) (queryLimitOf cfg)
                               else queryLimitOf cfg)))
   \<and> queryLimitOf noConfig = 100"
proof -
  have "\<forall>st \<in> set (scanStates n execute cfg zone createdAtOf prepared getTimestamp now
                  kind ps filt forUserId arg).
      \<forall>c \<in> set (issued st). c \<noteq> [] \<and>
             last c = PNumber (fetchLimitOf kind ps (queryLimitOf cfg))"
    by (rule scanStates_fetch_limit)
  moreover have "execPaginationQuery scyllaClient cfg zone createdAtOf prepared getTimestamp now
       kind ps filt forUserId arg = Some (Inr res)
      \<longrightarrow> (\<forall>c \<in> set (issued res). c \<noteq> [] \<and>
             last c = PNumber (fetchLimitOf kind ps (queryLimitOf cfg)))"
    using scan_fetch_limit by blast
  moreover have "queryLimitOf noConfig = 100"
    by (simp add: queryLimitOf_def noConfig_def)
  ultimately show ?thesis by (simp add: fetchLimitOf_def)
qed

text \<open>
  The theorem on one scan of bob's home feed: the scan is issued with the row limit 100,
  the default query limit, for the requested limit 10.
\<close>

theorem scan_fetch_limit_by_kind_witness:
  "map_option (map_sum id issued)
     (execPaginationQuery (Some (homeFeedStore fst snd sparseTable)) noConfig utcZone snd
        noTemplates zeroTimestamp dayTen HomeFeed (plainRequest 10) None (Some ''bob'') (Some 1))
     = Some (Inr [[PString ''bob'', PDate (ValidDate dayTen), PDate (ValidDate dayTen), PNumber 100]])
   \<and> last [PString ''bob'', PDate (ValidDate dayTen), PDate (ValidDate dayTen), PNumber 100]
       = PNumber (queryLimitOf noConfig)"
proof -
  have run: "map_option (map_sum id issued)
     (execPaginationQuery (Some (homeFeedStore fst snd sparseTable)) noConfig utcZone snd
        noTemplates zeroTimestamp dayTen HomeFeed (plainRequest 10) None (Some ''bob'') (Some 1))
     = Some (Inr [[PString ''bob'', PDate (ValidDate dayTen), PDate (ValidDate dayTen), PNumber 100]])"
    by code_simp
  then obtain res where
    res: "execPaginationQuery (Some (homeFeedStore fst snd sparseTable)) noConfig utcZone snd
        noTemplates zeroTimestamp dayTen HomeFeed (plainRequest 10) None (Some ''bob'') (Some 1)
       = Some (Inr res)"
    and iss: "issued res = [[PString ''bob'', PDate (ValidDate dayTen), PDate (ValidDate dayTen), PNumber 100]]"
    by (cases "execPaginationQuery (Some (homeFeedStore fst snd sparseTable)) noConfig utcZone snd
        noTemplates zeroTimestamp dayTen HomeFeed (plainRequest 10) None (Some ''bob'') (Some 1)")
      (auto simp: map_sum_def split: sum.splits)
  from scan_fetch_limit_by_kind
    [where scyllaClient = "Some (homeFeedStore fst snd sparseTable)" and cfg = noConfig
       and zone = utcZone and createdAtOf = snd and prepared = noTemplates and getTimestamp = zeroTimestamp
       and now = dayTen and kind = HomeFeed and ps = "plainRequest 10" and filt = None
       and forUserId = "Some ''bob''" and arg = "Some 1" and res = res] res iss
  have "last [PString ''bob'', PDate (ValidDate dayTen), PDate (ValidDate dayTen), PNumber 100]
       = PNumber (queryLimitOf noConfig)"
    by simp
  with run show ?thesis by simp
qed

text \<open>
  C7 as stated fails for the list feed: with the requested limit 10 and the query limit
  100, the scan of the list member u1 is issued with the row limit 10.
\<close>

theorem list_scan_fetch_limit_counterexample:
  "map_option (map_sum id issued)
     (execPaginationQuery (Some emptyStore) noConfig utcZone unitCreatedAt noTemplates zeroTimestamp dayTen
        ListFeed (listRequest 10 [''u1'']) None None None)
     = Some (Inr [[PString ''u1'', PDate (ValidDate dayTen), PNumber 10]])
   \<and> queryLimitOf noConfig = 100
   \<and> limit (listRequest 10 [''u1'']) = 10"
  by code_simp

text \<open>
  C10. For the list feed, a round of the loop pops the last id off \<^verbatim>\<open>ps.userIds\<close>. When
  \<^verbatim>\<open>execPaginationQuery\<close> returns for a request with a positive limit and a positive
  partition budget, the caller's array has lost its last \<open>n\<close> ids, with \<open>n\<close> at least 1:
  it is not what the caller passed. The scans were issued for these ids, last id first
  (all \<open>n\<close> of them, or all but the last one popped, when that one was empty).
\<close>

theorem list_scan_pops_user_ids:
  "(remainingUserIds st = Some (x # xs) \<longrightarrow>
      remainingUserIds (snd (scanTarget ListFeed ps forUserId st)) = Some (butlast (x # xs)))
   \<and> (execPaginationQuery (Some execute) cfg zone createdAtOf prepared getTimestamp now
         ListFeed ps filt forUserId arg = Some (Inr res)
        \<and> userIds ps = Some ids \<and> 0 < limit ps \<and> 0 < maxPartitionsOf cfg arg
      \<longrightarrow> (\<exists>n. 1 \<le> n \<and> n \<le> length ids
             \<and> remainingUserIds res = Some (take (length ids - n) ids)
             \<and> remainingUserIds res \<noteq> userIds ps
             \<and> (length (issued res) = n \<or> length (issued res) + 1 = n)
             \<and> map hd (issued res) = map PString (take (length (issued res)) (rev ids))))"
proof -
  have pop: "remainingUserIds st = Some (x # xs) \<longrightarrow>
      remainingUserIds (snd (scanTarget ListFeed ps forUserId st)) = Some (butlast (x # xs))"
    by (simp add: scanTarget_list)
  have consumed: "\<exists>n. 1 \<le> n \<and> n \<le> length ids
             \<and> remainingUserIds res = Some (take (length ids - n) ids)
             \<and> remainingUserIds res \<noteq> userIds ps
             \<and> (length (issued res) = n \<or> length (issued res) + 1 = n)
             \<and> map hd (issued res) = map PString (take (length (issued res)) (rev ids))"
    if run: "execPaginationQuery (Some execute) cfg zone createdAtOf prepared getTimestamp now
         ListFeed ps filt forUserId arg = Some (Inr res)"
      and ids: "userIds ps = Some ids" and lim: "0 < limit ps" and mp: "0 < maxPartitionsOf cfg arg"
  proof -
    from list_scan_consumes [OF run ids lim mp] obtain n where
      n: "1 \<le> n" "n \<le> length ids"
      and rem: "remainingUserIds res = Some (take (length ids - n) ids)"
      and rest: "length (issued res) = n \<or> length (issued res) + 1 = n"
        "map hd (issued res) = map PString (take (length (issued res)) (rev ids))"
      by blast
    from n have "length (take (length ids - n) ids) \<noteq> length ids" by simp
    then have "take (length ids - n) ids \<noteq> ids" by metis
    with rem ids have "remainingUserIds res \<noteq> userIds ps" by simp
    with n rem rest show ?thesis by blast
  qed
  from pop consumed show ?thesis by blast
qed

text \<open>
  The theorem on a list of three members and a budget of two partitions: the scans are for
  u3 and u2, and the caller's array is left with u1.
\<close>

theorem list_scan_pops_user_ids_witness:
  "map_option (map_sum id remainingUserIds)
     (execPaginationQuery (Some emptyStore) noConfig utcZone unitCreatedAt noTemplates zeroTimestamp dayTen
        ListFeed (listRequest 10 [''u1'', ''u2'', ''u3'']) None None (Some 2))
     = Some (Inr (Some [''u1'']))
   \<and> map_option (map_sum id (map hd \<circ> issued))
     (execPaginationQuery (Some emptyStore) noConfig utcZone unitCreatedAt noTemplates zeroTimestamp dayTen
        ListFeed (listRequest 10 [''u1'', ''u2'', ''u3'']) None None (Some 2))
     = Some (Inr [PString ''u3'', PString ''u2''])
   \<and> userIds (listRequest 10 [''u1'', ''u2'', ''u3'']) = Some [''u1'', ''u2'', ''u3'']
   \<and> (\<exists>n. 1 \<le> n \<and> n \<le> length [''u1'', ''u2'', ''u3'']
         \<and> Some [''u1''] = Some (take (length [''u1'', ''u2'', ''u3''] - n) [''u1'', ''u2'', ''u3'']))"
proof -
  let ?run = "execPaginationQuery (Some emptyStore) noConfig utcZone unitCreatedAt noTemplates zeroTimestamp dayTen
        ListFeed (listRequest 10 [''u1'', ''u2'', ''u3'']) None None (Some 2)"
  have r1: "map_option (map_sum id remainingUserIds) ?run = Some (Inr (Some [''u1'']))"
    by code_simp
  have r2: "map_option (map_sum id (map hd \<circ> issued)) ?run = Some (Inr [PString ''u3'', PString ''u2''])"
    by code_simp
  from r1 obtain res where res: "?run = Some (Inr res)" and rem: "remainingUserIds res = Some [''u1'']"
    by (cases ?run) (auto simp: map_sum_def split: sum.splits)
  have ids: "userIds (listRequest 10 [''u1'', ''u2'', ''u3'']) = Some [''u1'', ''u2'', ''u3'']"
    and lim: "0 < limit (listRequest 10 [''u1'', ''u2'', ''u3''])"
    and mp: "0 < maxPartitionsOf noConfig (Some 2)"
    by (simp_all add: listRequest_def plainRequest_def maxPartitionsOf_def)
  from list_scan_pops_user_ids
    [where execute = emptyStore and cfg = noConfig and zone = utcZone and createdAtOf = unitCreatedAt
       and prepared = noTemplates and getTimestamp = zeroTimestamp and now = dayTen
       and ps = "listRequest 10 [''u1'', ''u2'', ''u3'']" and filt = None and forUserId = None
       and arg = "Some 2" and res = res and ids = "[''u1'', ''u2'', ''u3'']"]
    res ids lim mp rem
  have "\<exists>n. 1 \<le> n \<and> n \<le> length [''u1'', ''u2'', ''u3'']
         \<and> Some [''u1''] = Some (take (length [''u1'', ''u2'', ''u3''] - n) [''u1'', ''u2'', ''u3''])"
    by auto
  with r1 r2 ids show ?thesis by simp
qed


section \<open>The home-timeline endpoint: the length of the result\<close>

lemma length_slice0: "0 \<le> e \<Longrightarrow> int (length (slice0 xs e)) \<le> e"
  by (simp add: slice0_def)

lemma scyllaTimeline_length:
  fixes packMany :: "'r list \<Rightarrow> 'p list"
  assumes "scyllaTimeline execute cfg zone createdAtOf prepared getTimestamp now chain packMany uid ps
             = Some (Inr result)"
    and "0 \<le> limit ps"
  shows "int (length result) \<le> limit ps"
proof -
  let ?cond = "\<lambda>state :: 'p list \<times> pagination. int (length (fst state)) < limit (snd state)"
  let ?body = "scyllaTimelineRound execute cfg zone createdAtOf prepared getTimestamp now chain packMany uid"
  from assms(1) obtain fp p where
    loop: "whileLoop ?cond ?body ([], ps) = Some (Inr (fp, p))"
    and result: "result = slice0 fp (limit p)"
    by (auto simp: scyllaTimeline_def split: option.splits sum.splits)
  let ?K = "\<lambda>state :: 'p list \<times> pagination. limit (snd state) = limit ps"
  have step: "?K b" if "?K a" and "?body a = Some (Continue b) \<or> ?body a = Some (Break b)" for a b
    using that
    by (auto simp: scyllaTimelineRound_def Let_def split: prod.splits option.splits sum.splits if_splits)
  have "?K (fp, p)"
  proof (rule whileLoop_rule [OF loop, where K = ?K and Q = ?K])
    show "?K ([], ps)" by simp
  qed (use step in blast)+
  then have "limit p = limit ps" by simp
  with result assms(2) show ?thesis by (simp add: length_slice0)
qed

lemma relationalTimeline_length:
  assumes "relationalTimeline getMany packMany ps = Some (Inr result)"
  shows "int (length result) \<le> max 0 (limit ps)"
  using assms
  by (auto simp: relationalTimeline_def split: option.splits sum.splits if_splits)

text \<open>
  C5. For a request with a limit between 1 and 100, the sequence that the home-timeline
  endpoint returns has at most \<^verbatim>\<open>limit\<close> elements, on the path over the partitioned store
  (\<^verbatim>\<open>foundPacked.slice(0, ps.limit)\<close>) and on the relational path (\<^verbatim>\<open>found.length = ps.limit\<close>).
\<close>

theorem homeTimeline_returns_at_most_limit:
  "(1 \<le> limit ps \<and> limit ps \<le> 100
      \<and> homeTimeline (Some execute) cfg zone createdAtOf prepared getTimestamp now chain packMany
           getMany packManyRelational uid ps = Some (Inr result)
    \<longrightarrow> int (length result) \<le> limit ps)
   \<and> (1 \<le> limit ps \<and> limit ps \<le> 100
      \<and> homeTimeline None cfg zone createdAtOf prepared getTimestamp now chain packMany
           getMany packManyRelational uid ps = Some (Inr result)
    \<longrightarrow> int (length result) \<le> limit ps)"
proof -
  have scylla: "int (length result) \<le> limit ps"
    if "1 \<le> limit ps"
      and "homeTimeline (Some execute) cfg zone createdAtOf prepared getTimestamp now chain packMany
           getMany packManyRelational uid ps = Some (Inr result)"
    using that
      scyllaTimeline_length [of execute cfg zone createdAtOf prepared getTimestamp now chain packMany uid ps result]
    by (simp add: homeTimeline_def)
  have relational: "int (length result) \<le> limit ps"
    if "1 \<le> limit ps"
      and "homeTimeline None cfg zone createdAtOf prepared getTimestamp now chain packMany
           getMany packManyRelational uid ps = Some (Inr result)"
    using that relationalTimeline_length [of getMany packManyRelational ps result]
    by (simp add: homeTimeline_def)
  from scylla relational show ?thesis by blast
qed

text \<open>
  The theorem for the limit 2 on both paths: three rows are found and two are returned.
\<close>

theorem homeTimeline_returns_at_most_limit_witness:
  "homeTimeline (Some (homeFeedStore fst snd todayTable)) noConfig utcZone snd noTemplates zeroTimestamp
       dayTen keepAll keepAll (pagedRows todayTable) keepAll ''bob'' (plainRequest 2)
     = Some (Inr (take 2 todayTable))
   \<and> homeTimeline (None :: (string \<Rightarrow> param list \<Rightarrow> (string \<times> date) list option) option)
       noConfig utcZone snd noTemplates zeroTimestamp
       dayTen keepAll keepAll (pagedRows todayTable) keepAll ''bob'' (plainRequest 2)
     = Some (Inr (take 2 todayTable))
   \<and> length todayTable = 3
   \<and> int (length (take 2 todayTable)) \<le> limit (plainRequest 2)"
proof -
  have s: "homeTimeline (Some (homeFeedStore fst snd todayTable)) noConfig utcZone snd noTemplates zeroTimestamp
       dayTen keepAll keepAll (pagedRows todayTable) keepAll ''bob'' (plainRequest 2)
     = Some (Inr (take 2 todayTable))"
    by code_simp
  have r: "homeTimeline (None :: (string \<Rightarrow> param list \<Rightarrow> (string \<times> date) list option) option)
       noConfig utcZone snd noTemplates zeroTimestamp
       dayTen keepAll keepAll (pagedRows todayTable) keepAll ''bob'' (plainRequest 2)
     = Some (Inr (take 2 todayTable))"
    by code_simp
  have l: "1 \<le> limit (plainRequest 2) \<and> limit (plainRequest 2) \<le> 100"
    by (simp add: plainRequest_def)
  from homeTimeline_returns_at_most_limit
    [where execute = "homeFeedStore fst snd todayTable" and cfg = noConfig and zone = utcZone and createdAtOf = snd
       and prepared = noTemplates and getTimestamp = zeroTimestamp and now = dayTen
       and chain = keepAll and packMany = keepAll and getMany = "pagedRows todayTable"
       and packManyRelational = keepAll and uid = "''bob''" and ps = "plainRequest 2"
       and result = "take 2 todayTable"] s r l
  have "int (length (take 2 todayTable)) \<le> limit (plainRequest 2)"
    by blast
  moreover have "length todayTable = 3" by (simp add: todayTable_def)
  ultimately show ?thesis using s r by simp
qed


end
